theory Spec2Isabelle
  imports Complex_Main "HOL-Library.Log_Nat"
begin

section \<open>Data model (lib/types.ts)\<close>

text \<open>
  A JavaScript number is modelled by the rational it stands for: the BOM editor accepts
  fractional quantities (minimum 0.0001), and unit costs are quotients. Sums, differences,
  products, comparisons and the cost quotient are taken exactly. The one result the code
  turns into an integer, \<open>Math.floor(available / neededPerUnit)\<close> in the virtual stock,
  is taken of the quotient as an IEEE double holds it (see \<open>round_double\<close>), since the
  floor of the rounded and of the exact quotient can differ by one. For a number \<open>x\<close> the
  idiom \<open>x || 0\<close> is \<open>x\<close> itself; for an optional field it is \<open>0\<close> when the field
  is absent.
\<close>

record BomEntry =
  bom_productId :: string
  bom_quantity :: rat

record Product =
  product_id :: string
  product_name :: string
  product_sku :: "string option"
  currentStock :: rat
  product_costPrice :: "rat option"
  product_supplierId :: "string option"
  bom :: "BomEntry list option"
  product_ownerId :: string

datatype TransactionType = IN | OUT | ASSEMBLY

datatype TransactionStatus = COMPLETED | CANCELLED | PENDING_PAYMENT

record Transaction =
  txn_id :: string
  txn_ownerId :: string
  txn_type :: TransactionType
  txn_status :: TransactionStatus
  txn_clientId :: "string option"
  txn_clientName :: "string option"
  txn_supplierId :: "string option"
  txn_date :: nat
  totalValue :: rat
  discountValue :: rat
  netTotal :: rat
  txn_notes :: "string option"
  invoiceNumber :: "string option"

record TransactionItem =
  item_id :: string
  transactionId :: string
  item_ownerId :: string
  item_productId :: string
  item_productName :: string
  item_quantity :: rat
  item_price :: rat
  item_costPrice :: "rat option"
  item_sku :: "string option"

record CartItem =
  cart_productId :: string
  cart_productName :: string
  cart_quantity :: rat
  cart_price :: rat
  availableStock :: rat
  cart_costPrice :: rat

text \<open>\<open>x || 0\<close> on an optional number.\<close>

definition or_zero :: "rat option \<Rightarrow> rat" where
  "or_zero v = (case v of None \<Rightarrow> 0 | Some x \<Rightarrow> x)"

text \<open>\<open>name || id\<close>: the empty string is falsy.\<close>

definition name_or :: "string \<Rightarrow> string \<Rightarrow> string" where
  "name_or n d = (if n = [] then d else n)"

section \<open>The storage shim (services/storage.ts, firebase hooks)\<close>

text \<open>
  Each collection is the JSON array kept in localStorage. The three collections the
  ledger touches are products, transactions and transaction_items. The timestamps
  \<open>createdAt\<close>/\<open>updatedAt\<close> that the shim stamps on every write are left out.
\<close>

record Store =
  products :: "Product list"
  transactions :: "Transaction list"
  transaction_items :: "TransactionItem list"

datatype error =
    EmptyCart
  | ProductNotFound string
  | ComponentNotFound string
  | InsufficientComponentStock string rat rat
  | FinalProductNotFound
  | NoBomDefined
  | StorageItemNotFound string string
  | NullDereference
  | AlreadyCancelled
  | NotLoaded

text \<open>\<open>storage.getById\<close>: the first element with that id, or null.\<close>

definition getById :: "Product list \<Rightarrow> string \<Rightarrow> Product option" where
  "getById ps i = find (\<lambda>p. product_id p = i) ps"

text \<open>
  \<open>storage.set(collection, id, data)\<close>: merge \<open>data\<close> over the first element with that id,
  or push \<open>{...data, id}\<close>.
\<close>

fun storage_set :: "('a \<Rightarrow> string) \<Rightarrow> ('a \<Rightarrow> 'a \<Rightarrow> 'a) \<Rightarrow> (string \<Rightarrow> 'a \<Rightarrow> 'a) \<Rightarrow> string \<Rightarrow> 'a \<Rightarrow> 'a list \<Rightarrow> 'a list" where
  "storage_set key merge with_id i d [] = [with_id i d]"
| "storage_set key merge with_id i d (x # xs) =
     (if key x = i then merge x d # xs else x # storage_set key merge with_id i d xs)"

definition merge_opt :: "'a option \<Rightarrow> 'a option \<Rightarrow> 'a option" where
  "merge_opt old new = (case new of None \<Rightarrow> old | Some v \<Rightarrow> Some v)"

text \<open>\<open>{...old, ...data}\<close>: a key of \<open>data\<close> wins, an absent optional key keeps the old value.\<close>

definition merge_transaction :: "Transaction \<Rightarrow> Transaction \<Rightarrow> Transaction" where
  "merge_transaction old d =
     d\<lparr>txn_clientId := merge_opt (txn_clientId old) (txn_clientId d),
       txn_clientName := merge_opt (txn_clientName old) (txn_clientName d),
       txn_supplierId := merge_opt (txn_supplierId old) (txn_supplierId d),
       txn_notes := merge_opt (txn_notes old) (txn_notes d),
       invoiceNumber := merge_opt (invoiceNumber old) (invoiceNumber d)\<rparr>"

definition merge_item :: "TransactionItem \<Rightarrow> TransactionItem \<Rightarrow> TransactionItem" where
  "merge_item old d =
     d\<lparr>item_costPrice := merge_opt (item_costPrice old) (item_costPrice d),
       item_sku := merge_opt (item_sku old) (item_sku d)\<rparr>"

definition set_transaction :: "string \<Rightarrow> Transaction \<Rightarrow> Transaction list \<Rightarrow> Transaction list" where
  "set_transaction = storage_set txn_id merge_transaction (\<lambda>i d. d\<lparr>txn_id := i\<rparr>)"

definition set_item :: "string \<Rightarrow> TransactionItem \<Rightarrow> TransactionItem list \<Rightarrow> TransactionItem list" where
  "set_item = storage_set item_id merge_item (\<lambda>i d. d\<lparr>item_id := i\<rparr>)"

text \<open>
  The data of a product update: \<open>currentStock\<close> is either a plain number or the
  \<open>increment(n)\<close> sentinel; \<open>costPrice\<close> and \<open>supplierId\<close> are written when present.
\<close>

datatype stock_update = Assign rat | Increment rat

record ProductPatch =
  patch_currentStock :: "stock_update option"
  patch_costPrice :: "rat option"
  patch_supplierId :: "string option"

definition apply_patch :: "Product \<Rightarrow> ProductPatch \<Rightarrow> Product" where
  "apply_patch p d =
     p\<lparr>currentStock :=
         (case patch_currentStock d of
            None \<Rightarrow> currentStock p
          | Some (Assign v) \<Rightarrow> v
          | Some (Increment v) \<Rightarrow> currentStock p + v),
       product_costPrice := merge_opt (product_costPrice p) (patch_costPrice d),
       product_supplierId := merge_opt (product_supplierId p) (patch_supplierId d)\<rparr>"

text \<open>\<open>storage.update\<close>: patches the first element with that id; throws when there is none.\<close>

fun storage_update :: "string \<Rightarrow> ProductPatch \<Rightarrow> Product list \<Rightarrow> Product list option" where
  "storage_update i d [] = None"
| "storage_update i d (p # ps) =
     (if product_id p = i then Some (apply_patch p d # ps)
      else map_option ((#) p) (storage_update i d ps))"

text \<open>\<open>storage.delete\<close>: drops every element with that id.\<close>

definition storage_delete :: "('a \<Rightarrow> string) \<Rightarrow> string \<Rightarrow> 'a list \<Rightarrow> 'a list" where
  "storage_delete key i xs = filter (\<lambda>x. key x \<noteq> i) xs"

text \<open>
  The operation log of \<open>runTransaction\<close> and \<open>writeBatch\<close>: \<open>{type, ref, data}\<close> with the
  collection of \<open>ref\<close> fixed by the constructor.
\<close>

datatype operation =
    SetTransaction string Transaction
  | SetItem string TransactionItem
  | UpdateProduct string ProductPatch
  | DeleteItem string
  | DeleteTransaction string

fun apply_op :: "operation \<Rightarrow> Store \<Rightarrow> error + Store" where
  "apply_op (SetTransaction i d) s = Inr (s\<lparr>transactions := set_transaction i d (transactions s)\<rparr>)"
| "apply_op (SetItem i d) s = Inr (s\<lparr>transaction_items := set_item i d (transaction_items s)\<rparr>)"
| "apply_op (UpdateProduct i d) s =
     (case storage_update i d (products s) of
        None \<Rightarrow> Inl (StorageItemNotFound i ''products'')
      | Some ps \<Rightarrow> Inr (s\<lparr>products := ps\<rparr>))"
| "apply_op (DeleteItem i) s =
     Inr (s\<lparr>transaction_items := storage_delete item_id i (transaction_items s)\<rparr>)"
| "apply_op (DeleteTransaction i) s =
     Inr (s\<lparr>transactions := storage_delete txn_id i (transactions s)\<rparr>)"

text \<open>
  The commit loop: the operations are applied one by one; an operation that throws stops
  the loop and leaves the earlier writes in place.
\<close>

fun commit :: "operation list \<Rightarrow> Store \<Rightarrow> Store \<times> error option" where
  "commit [] s = (s, None)"
| "commit (x # xs) s = (case apply_op x s of Inl e \<Rightarrow> (s, Some e) | Inr s' \<Rightarrow> commit xs s')"

text \<open>
  \<open>storage.runTransaction\<close>: the update function reads the store and logs its writes; the
  log is committed only when the function returns without throwing.
\<close>

definition runTransaction :: "(Store \<Rightarrow> error + operation list) \<Rightarrow> Store \<Rightarrow> Store \<times> error option" where
  "runTransaction updateFunction s =
     (case updateFunction s of Inl e \<Rightarrow> (s, Some e) | Inr ops \<Rightarrow> commit ops s)"

section \<open>Virtual stock (lib/products.ts)\<close>

text \<open>
  Division of two doubles gives the double nearest to the exact quotient, ties going to
  the even significand. \<open>floor_log2 x\<close> is the exponent \<open>e\<close> with \<open>2^e \<le> x < 2^(e+1)\<close> of a
  positive \<open>x\<close>; below \<open>2^-1022\<close> the spacing stays that of the subnormal numbers. A
  result of magnitude \<open>2^1024\<close> or more is an infinity.
\<close>

definition pow2 :: "int \<Rightarrow> rat" where
  "pow2 e = (if 0 \<le> e then 2 ^ nat e else 1 / 2 ^ nat (- e))"

definition round_half_even :: "rat \<Rightarrow> int" where
  "round_half_even r =
     (let f = \<lfloor>r\<rfloor>; d = r - of_int f
      in if d < 1 / 2 then f else if 1 / 2 < d then f + 1 else if even f then f else f + 1)"

definition floor_log2 :: "rat \<Rightarrow> int" where
  "floor_log2 x = (if 1 \<le> x then bitlen \<lfloor>x\<rfloor> - 1 else - bitlen (\<lceil>1 / x\<rceil> - 1))"

definition round_double :: "rat \<Rightarrow> rat" where
  "round_double x =
     (if x = 0 then 0
      else (let e = max (floor_log2 \<bar>x\<bar>) (- 1022); ulp = pow2 (e - 52)
            in of_int (round_half_even (x / ulp)) * ulp))"

text \<open>
  \<open>Math.floor(available / neededPerUnit)\<close> for a positive divisor: an integer, or the
  infinity the quotient overflowed to.
\<close>

datatype floored = Fin int | PlusInfinity | MinusInfinity

definition floor_quotient :: "rat \<Rightarrow> rat \<Rightarrow> floored" where
  "floor_quotient a b =
     (let q = round_double (a / b)
      in if pow2 1024 \<le> q then PlusInfinity
         else if q \<le> - pow2 1024 then MinusInfinity
         else Fin \<lfloor>q\<rfloor>)"

text \<open>\<open>Math.min\<close> on such values.\<close>

fun js_min :: "floored \<Rightarrow> floored \<Rightarrow> floored" where
  "js_min MinusInfinity y = MinusInfinity"
| "js_min x MinusInfinity = MinusInfinity"
| "js_min PlusInfinity y = y"
| "js_min x PlusInfinity = x"
| "js_min (Fin a) (Fin b) = Fin (min a b)"

text \<open>
  The loop of \<open>computeVirtualStock\<close>. \<open>minUnits\<close> starts at Infinity; a component with
  \<open>quantity \<le> 0\<close> returns 0 at once; a component that is not in the product list has 0
  available; a \<open>minUnits\<close> that is not finite at the end gives 0.
\<close>

definition available_of :: "Product list \<Rightarrow> BomEntry \<Rightarrow> rat" where
  "available_of ps cmp =
     (case getById ps (bom_productId cmp) of None \<Rightarrow> 0 | Some p \<Rightarrow> currentStock p)"

definition producible :: "Product list \<Rightarrow> BomEntry \<Rightarrow> floored" where
  "producible ps cmp = floor_quotient (available_of ps cmp) (bom_quantity cmp)"

fun virtual_loop :: "Product list \<Rightarrow> floored \<Rightarrow> BomEntry list \<Rightarrow> int" where
  "virtual_loop ps minUnits [] = (case minUnits of Fin m \<Rightarrow> m | _ \<Rightarrow> 0)"
| "virtual_loop ps minUnits (cmp # rest) =
     (if bom_quantity cmp \<le> 0 then 0
      else virtual_loop ps (js_min minUnits (producible ps cmp)) rest)"

definition computeVirtualStock :: "Product option \<Rightarrow> Product list option \<Rightarrow> int" where
  "computeVirtualStock finalProduct allProducts =
     (case finalProduct of
        None \<Rightarrow> 0
      | Some f \<Rightarrow>
          (case bom f of
             None \<Rightarrow> 0
           | Some b \<Rightarrow>
               (case allProducts of
                  None \<Rightarrow> 0
                | Some ps \<Rightarrow> if b = [] then 0 else virtual_loop ps PlusInfinity b)))"

section \<open>Sale (components/sales/new-sale-form.tsx)\<close>

record SaleForm =
  cart :: "CartItem list"
  clientId :: string
  clientName :: string
  saleDate :: nat
  paymentStatus :: TransactionStatus
  discount :: rat

record ConsumptionOp =
  cons_ref :: string
  cons_snap :: Product
  cons_required :: rat
  cons_name :: string

record ProductDetail =
  detail_ref :: string
  detail_snap :: Product
  detail_item :: CartItem

text \<open>\<open>Array.isArray(bom) && bom.length > 0\<close> guards every BOM loop; \<open>the_bom\<close> is the list it runs over.\<close>

definition the_bom :: "Product \<Rightarrow> BomEntry list" where
  "the_bom p = (case bom p of None \<Rightarrow> [] | Some b \<Rightarrow> b)"

definition subtotal :: "CartItem list \<Rightarrow> rat" where
  "subtotal c = foldl (\<lambda>acc item. acc + cart_quantity item * cart_price item) 0 c"

text \<open>Step 1, inner loop: every component is read and checked against the shortfall.\<close>

fun check_bom :: "Product list \<Rightarrow> rat \<Rightarrow> BomEntry list \<Rightarrow> error + ConsumptionOp list" where
  "check_bom ps shortfall [] = Inr []"
| "check_bom ps shortfall (cmp # rest) =
     (case getById ps (bom_productId cmp) of
        None \<Rightarrow> Inl (ComponentNotFound (bom_productId cmp))
      | Some c \<Rightarrow>
          (let required = shortfall * bom_quantity cmp;
               available = currentStock c;
               name = name_or (product_name c) (bom_productId cmp)
           in if required > available then Inl (InsufficientComponentStock name required available)
              else (case check_bom ps shortfall rest of
                      Inl e \<Rightarrow> Inl e
                    | Inr cons \<Rightarrow>
                        Inr ((if required > 0
                              then [\<lparr>cons_ref = bom_productId cmp, cons_snap = c,
                                     cons_required = required, cons_name = name\<rparr>]
                              else []) @ cons))))"

text \<open>Step 1, outer loop over the cart.\<close>

fun read_cart :: "Product list \<Rightarrow> CartItem list \<Rightarrow> error + (ProductDetail list \<times> ConsumptionOp list)" where
  "read_cart ps [] = Inr ([], [])"
| "read_cart ps (item # rest) =
     (case getById ps (cart_productId item) of
        None \<Rightarrow> Inl (ProductNotFound (cart_productName item))
      | Some prodData \<Rightarrow>
          (let fromStock = min (currentStock prodData) (cart_quantity item);
               shortfall = max 0 (cart_quantity item - fromStock)
           in case (if the_bom prodData \<noteq> [] then check_bom ps shortfall (the_bom prodData)
                    else Inr []) of
                Inl e \<Rightarrow> Inl e
              | Inr cons \<Rightarrow>
                  (case read_cart ps rest of
                     Inl e \<Rightarrow> Inl e
                   | Inr (details, cons') \<Rightarrow>
                       Inr (\<lparr>detail_ref = cart_productId item, detail_snap = prodData,
                              detail_item = item\<lparr>availableStock := fromStock\<rparr>\<rparr> # details,
                            cons @ cons'))))"

text \<open>
  Step 3: the components are read again for their cost. \<open>data()\<close> of a snapshot that
  does not exist is null, so reading \<open>costPrice\<close> from it throws.
\<close>

fun assembledCost :: "Product list \<Rightarrow> rat \<Rightarrow> BomEntry list \<Rightarrow> error + rat" where
  "assembledCost ps acc [] = Inr acc"
| "assembledCost ps acc (cmp # rest) =
     (case getById ps (bom_productId cmp) of
        None \<Rightarrow> Inl NullDereference
      | Some c \<Rightarrow> assembledCost ps (acc + or_zero (product_costPrice c) * bom_quantity cmp) rest)"

definition costPerUnit :: "rat \<Rightarrow> rat \<Rightarrow> rat \<Rightarrow> rat \<Rightarrow> rat \<Rightarrow> rat" where
  "costPerUnit totalQty fromStock shortfall readyCost assembledCostPerUnit =
     (if totalQty > 0
      then (fromStock * readyCost + shortfall * assembledCostPerUnit) / totalQty
      else readyCost)"

fun write_details :: "Product list \<Rightarrow> string \<Rightarrow> string \<Rightarrow> (nat \<Rightarrow> string) \<Rightarrow> nat \<Rightarrow> ProductDetail list \<Rightarrow> error + operation list" where
  "write_details ps tid uid iid k [] = Inr []"
| "write_details ps tid uid iid k (detail # rest) =
     (let prodData = detail_snap detail;
          fromStock = availableStock (detail_item detail);
          shortfall = max 0 (cart_quantity (detail_item detail) - fromStock)
      in case (if the_bom prodData \<noteq> [] then assembledCost ps 0 (the_bom prodData) else Inr 0) of
           Inl e \<Rightarrow> Inl e
         | Inr assembledCostPerUnit \<Rightarrow>
             (case write_details ps tid uid iid (Suc k) rest of
                Inl e \<Rightarrow> Inl e
              | Inr ops \<Rightarrow>
                  Inr (SetItem (iid k)
                         \<lparr>item_id = iid k, transactionId = tid, item_ownerId = uid,
                          item_productId = cart_productId (detail_item detail),
                          item_productName = cart_productName (detail_item detail),
                          item_quantity = cart_quantity (detail_item detail),
                          item_price = cart_price (detail_item detail),
                          item_costPrice =
                            Some (costPerUnit (cart_quantity (detail_item detail)) fromStock shortfall
                                    (or_zero (product_costPrice prodData)) assembledCostPerUnit),
                          item_sku = None\<rparr>
                       # UpdateProduct (detail_ref detail)
                           \<lparr>patch_currentStock = Some (Assign (currentStock prodData - fromStock)),
                            patch_costPrice = None, patch_supplierId = None\<rparr>
                       # ops)))"

definition consumption_write :: "ConsumptionOp \<Rightarrow> operation" where
  "consumption_write cons =
     UpdateProduct (cons_ref cons)
       \<lparr>patch_currentStock = Some (Assign (currentStock (cons_snap cons) - cons_required cons)),
        patch_costPrice = None, patch_supplierId = None\<rparr>"

definition sale_transaction :: "string \<Rightarrow> SaleForm \<Rightarrow> string \<Rightarrow> Transaction" where
  "sale_transaction uid form tid =
     \<lparr>txn_id = tid, txn_ownerId = uid, txn_type = IN, txn_status = paymentStatus form,
      txn_clientId = Some (clientId form), txn_clientName = Some (clientName form),
      txn_supplierId = None, txn_date = saleDate form,
      totalValue = subtotal (cart form), discountValue = discount form,
      netTotal = subtotal (cart form) - discount form,
      txn_notes = None, invoiceNumber = None\<rparr>"

text \<open>
  The update function handed to \<open>runTransaction\<close>. \<open>tid\<close> and \<open>iid k\<close> are the uuids that
  \<open>doc(collection(...))\<close> draws for the transaction and for the item of cart line \<open>k\<close>.
\<close>

definition sale_updateFunction :: "string \<Rightarrow> SaleForm \<Rightarrow> string \<Rightarrow> (nat \<Rightarrow> string) \<Rightarrow> Store \<Rightarrow> error + operation list" where
  "sale_updateFunction uid form tid iid s =
     (case read_cart (products s) (cart form) of
        Inl e \<Rightarrow> Inl e
      | Inr (productDetails, consumptionOps) \<Rightarrow>
          (case write_details (products s) tid uid iid 0 productDetails of
             Inl e \<Rightarrow> Inl e
           | Inr ops \<Rightarrow>
               Inr (SetTransaction tid (sale_transaction uid form tid)
                    # ops @ map consumption_write consumptionOps)))"

definition onFinalizeSale :: "string \<Rightarrow> SaleForm \<Rightarrow> string \<Rightarrow> (nat \<Rightarrow> string) \<Rightarrow> Store \<Rightarrow> Store \<times> error option" where
  "onFinalizeSale uid form tid iid s =
     (if cart form = [] then (s, Some EmptyCart)
      else runTransaction (sale_updateFunction uid form tid iid) s)"

text \<open>
  The guards of \<open>handleAddItem\<close>, which run when a line is put into the cart, against the
  product as the form has cached it: a selection and a positive quantity; for a product
  without a BOM, quantity within stock; for a BOM product, quantity within stock plus
  virtual stock, and every component sufficient for the shortfall. \<open>None\<close> means the line
  is accepted; the cart update that follows is not modelled.
\<close>

datatype add_rejection =
    InvalidSelection
  | InsufficientStock
  | InsufficientInputs
  | InsufficientRawMaterial

definition handleAddItem_guards :: "Product option \<Rightarrow> rat \<Rightarrow> Product list option \<Rightarrow> add_rejection option" where
  "handleAddItem_guards selectedProduct quantity allProducts =
     (case selectedProduct of
        None \<Rightarrow> Some InvalidSelection
      | Some p \<Rightarrow>
          if quantity \<le> 0 then Some InvalidSelection
          else
            (let ps = (case allProducts of None \<Rightarrow> [] | Some l \<Rightarrow> l);
                 isBom = (the_bom p \<noteq> []);
                 virtualStock = of_int (computeVirtualStock (Some p) (Some ps));
                 shortfall = max 0 (quantity - currentStock p)
             in if \<not> isBom \<and> quantity > currentStock p then Some InsufficientStock
                else if isBom \<and> quantity > currentStock p + virtualStock then Some InsufficientInputs
                else if isBom \<and> list_ex (\<lambda>cmp. shortfall * bom_quantity cmp > available_of ps cmp) (the_bom p)
                then Some InsufficientRawMaterial
                else None))"

section \<open>Purchase (components/purchases/new-purchase-form.tsx)\<close>

record PurchaseLine =
  line_productId :: string
  line_quantity :: rat
  line_price :: rat

record PurchaseForm =
  purchase_supplierId :: string
  purchase_date :: nat
  purchase_invoiceNumber :: "string option"
  purchase_notes :: "string option"
  discountInput :: rat
  purchase_items :: "PurchaseLine list"

definition or_empty :: "string option \<Rightarrow> string" where
  "or_empty v = (case v of None \<Rightarrow> [] | Some x \<Rightarrow> x)"

definition purchase_subtotal :: "PurchaseLine list \<Rightarrow> rat" where
  "purchase_subtotal ls = foldl (\<lambda>acc item. acc + line_quantity item * line_price item) 0 ls"

definition purchase_transaction :: "string \<Rightarrow> PurchaseForm \<Rightarrow> string \<Rightarrow> Transaction" where
  "purchase_transaction uid values tid =
     \<lparr>txn_id = tid, txn_ownerId = uid, txn_type = OUT, txn_status = COMPLETED,
      txn_clientId = None, txn_clientName = None,
      txn_supplierId = Some (purchase_supplierId values), txn_date = purchase_date values,
      totalValue = purchase_subtotal (purchase_items values),
      discountValue = discountInput values,
      netTotal = purchase_subtotal (purchase_items values) - discountInput values,
      txn_notes = Some (or_empty (purchase_notes values)),
      invoiceNumber = Some (or_empty (purchase_invoiceNumber values))\<rparr>"

text \<open>
  The \<open>forEach\<close> over the lines. \<open>cached\<close> is the product list the form has loaded
  (\<open>products\<close> of \<open>useCollection\<close>, undefined while loading); a line whose product is not
  in it returns early and logs nothing. \<open>iid k\<close> is the uuid drawn for line \<open>k\<close>.
\<close>

fun purchase_lines :: "Product list option \<Rightarrow> string \<Rightarrow> string \<Rightarrow> string \<Rightarrow> (nat \<Rightarrow> string) \<Rightarrow> nat \<Rightarrow> PurchaseLine list \<Rightarrow> operation list" where
  "purchase_lines cached tid uid supplier iid k [] = []"
| "purchase_lines cached tid uid supplier iid k (item # rest) =
     (case (case cached of None \<Rightarrow> None | Some ps \<Rightarrow> getById ps (line_productId item)) of
        None \<Rightarrow> purchase_lines cached tid uid supplier iid (Suc k) rest
      | Some product \<Rightarrow>
          SetItem (iid k)
            \<lparr>item_id = iid k, transactionId = tid, item_ownerId = uid,
             item_productId = line_productId item, item_productName = product_name product,
             item_quantity = line_quantity item, item_price = line_price item,
             item_costPrice = None, item_sku = Some (or_empty (product_sku product))\<rparr>
          # UpdateProduct (line_productId item)
              \<lparr>patch_currentStock = Some (Increment (line_quantity item)),
               patch_costPrice = Some (line_price item),
               patch_supplierId = Some supplier\<rparr>
          # purchase_lines cached tid uid supplier iid (Suc k) rest)"

definition onFinalizePurchase :: "Product list option \<Rightarrow> string \<Rightarrow> PurchaseForm \<Rightarrow> string \<Rightarrow> (nat \<Rightarrow> string) \<Rightarrow> Store \<Rightarrow> Store \<times> error option" where
  "onFinalizePurchase cached uid values tid iid s =
     commit (SetTransaction tid (purchase_transaction uid values tid)
             # purchase_lines cached tid uid (purchase_supplierId values) iid 0 (purchase_items values)) s"

section \<open>Assembly to stock (services/bom.ts)\<close>

record ComponentSnap =
  comp_ref :: string
  comp_snap :: Product
  comp_required :: rat

fun assembly_check :: "Product list \<Rightarrow> rat \<Rightarrow> BomEntry list \<Rightarrow> error + ComponentSnap list" where
  "assembly_check ps quantityToAssemble [] = Inr []"
| "assembly_check ps quantityToAssemble (cmp # rest) =
     (case getById ps (bom_productId cmp) of
        None \<Rightarrow> Inl (ComponentNotFound (bom_productId cmp))
      | Some c \<Rightarrow>
          (let required = quantityToAssemble * bom_quantity cmp;
               available = currentStock c
           in if required > available
              then Inl (InsufficientComponentStock
                          (name_or (product_name c) (bom_productId cmp)) required available)
              else (case assembly_check ps quantityToAssemble rest of
                      Inl e \<Rightarrow> Inl e
                    | Inr snaps \<Rightarrow>
                        Inr (\<lparr>comp_ref = bom_productId cmp, comp_snap = c,
                              comp_required = required\<rparr> # snaps))))"

fun component_writes :: "string \<Rightarrow> string \<Rightarrow> (nat \<Rightarrow> string) \<Rightarrow> nat \<Rightarrow> ComponentSnap list \<Rightarrow> operation list" where
  "component_writes tid uid iid k [] = []"
| "component_writes tid uid iid k (c # rest) =
     SetItem (iid k)
       \<lparr>item_id = iid k, transactionId = tid, item_ownerId = uid,
        item_productId = comp_ref c,
        item_productName = name_or (product_name (comp_snap c)) (comp_ref c),
        item_quantity = comp_required c, item_price = 0,
        item_costPrice = Some (or_zero (product_costPrice (comp_snap c))),
        item_sku = None\<rparr>
     # UpdateProduct (comp_ref c)
         \<lparr>patch_currentStock = Some (Assign (currentStock (comp_snap c) - comp_required c)),
          patch_costPrice = None, patch_supplierId = None\<rparr>
     # component_writes tid uid iid (Suc k) rest"

definition assembly_transaction :: "string \<Rightarrow> string \<Rightarrow> nat \<Rightarrow> Transaction" where
  "assembly_transaction uid tid now =
     \<lparr>txn_id = tid, txn_ownerId = uid, txn_type = ASSEMBLY, txn_status = COMPLETED,
      txn_clientId = None, txn_clientName = None, txn_supplierId = None, txn_date = now,
      totalValue = 0, discountValue = 0, netTotal = 0,
      txn_notes = Some ''Montagem para estoque (BOM)'', invoiceNumber = None\<rparr>"

definition assembly_updateFunction :: "string \<Rightarrow> string \<Rightarrow> rat \<Rightarrow> string \<Rightarrow> (nat \<Rightarrow> string) \<Rightarrow> nat \<Rightarrow> Store \<Rightarrow> error + operation list" where
  "assembly_updateFunction uid finalProductId quantityToAssemble tid iid now s =
     (case getById (products s) finalProductId of
        None \<Rightarrow> Inl FinalProductNotFound
      | Some finalData \<Rightarrow>
          if the_bom finalData = [] then Inl NoBomDefined
          else (case assembly_check (products s) quantityToAssemble (the_bom finalData) of
                  Inl e \<Rightarrow> Inl e
                | Inr componentSnaps \<Rightarrow>
                    Inr (SetTransaction tid (assembly_transaction uid tid now)
                         # component_writes tid uid iid 0 componentSnaps
                         @ [UpdateProduct finalProductId
                              \<lparr>patch_currentStock =
                                 Some (Assign (currentStock finalData + quantityToAssemble)),
                               patch_costPrice = None, patch_supplierId = None\<rparr>,
                            SetItem (iid (length componentSnaps))
                              \<lparr>item_id = iid (length componentSnaps), transactionId = tid,
                               item_ownerId = uid, item_productId = finalProductId,
                               item_productName = product_name finalData,
                               item_quantity = quantityToAssemble, item_price = 0,
                               item_costPrice = Some 0, item_sku = None\<rparr>])))"

definition processAssemblyToStock :: "string \<Rightarrow> string \<Rightarrow> rat \<Rightarrow> string \<Rightarrow> (nat \<Rightarrow> string) \<Rightarrow> nat \<Rightarrow> Store \<Rightarrow> Store \<times> error option" where
  "processAssemblyToStock uid finalProductId quantityToAssemble tid iid now s =
     runTransaction (assembly_updateFunction uid finalProductId quantityToAssemble tid iid now) s"

section \<open>Reversal (components/transactions/details-dialog.tsx)\<close>

text \<open>The query behind \<open>items\<close>: the items of the transaction that belong to the user.\<close>

definition itemsQuery :: "Transaction \<Rightarrow> string \<Rightarrow> Store \<Rightarrow> TransactionItem list" where
  "itemsQuery t uid s =
     filter (\<lambda>i. transactionId i = txn_id t \<and> item_ownerId i = uid) (transaction_items s)"

definition freshItems :: "Transaction \<Rightarrow> string \<Rightarrow> TransactionItem list \<Rightarrow> Store \<Rightarrow> TransactionItem list" where
  "freshItems t uid items s = (if items \<noteq> [] then items else itemsQuery t uid s)"

definition stockAdjustment :: "Transaction \<Rightarrow> TransactionItem \<Rightarrow> rat" where
  "stockAdjustment t item = (if txn_type t = IN then item_quantity item else - item_quantity item)"

fun revert_stock :: "Product list \<Rightarrow> Transaction \<Rightarrow> TransactionItem list \<Rightarrow> operation list" where
  "revert_stock ps t [] = []"
| "revert_stock ps t (item # rest) =
     (if getById ps (item_productId item) \<noteq> None
      then [UpdateProduct (item_productId item)
              \<lparr>patch_currentStock = Some (Increment (stockAdjustment t item)),
               patch_costPrice = None, patch_supplierId = None\<rparr>]
      else [])
     @ revert_stock ps t rest"

definition revert_ops :: "Product list \<Rightarrow> Transaction \<Rightarrow> TransactionItem list \<Rightarrow> operation list" where
  "revert_ops ps t items =
     revert_stock ps t items @ map (\<lambda>item. DeleteItem (item_id item)) items
     @ [DeleteTransaction (txn_id t)]"

text \<open>
  \<open>items\<close> is the list the dialog has loaded (null while loading). The transactional path
  comes first; when it throws, the batch path reads the store as it then is and commits
  the same adjustments again.
\<close>

definition handleRevert :: "Transaction \<Rightarrow> string \<Rightarrow> TransactionItem list option \<Rightarrow> Store \<Rightarrow> Store \<times> error option" where
  "handleRevert t uid items s =
     (case items of
        None \<Rightarrow> (s, Some NotLoaded)
      | Some its \<Rightarrow>
          if txn_status t = CANCELLED then (s, Some AlreadyCancelled)
          else (case runTransaction (\<lambda>s0. Inr (revert_ops (products s0) t (freshItems t uid its s))) s of
                  (s1, None) \<Rightarrow> (s1, None)
                | (s1, Some e) \<Rightarrow>
                    commit (revert_ops (products s1) t (freshItems t uid its s1)) s1))"

section \<open>Predicates and projections used in the statements\<close>

text \<open>
  What a log of operations writes: the products it updates must exist for the commit loop
  to run through; a stock write is safe when the value it stores or adds is not negative;
  \<open>item_writes\<close> and \<open>txn_writes\<close> list the documents a log sets, in order.
\<close>

fun updates_existing :: "string set \<Rightarrow> operation \<Rightarrow> bool" where
  "updates_existing ids (UpdateProduct i d) = (i \<in> ids)"
| "updates_existing ids x = True"

fun stock_safe :: "operation \<Rightarrow> bool" where
  "stock_safe (UpdateProduct i d) =
     (case patch_currentStock d of None \<Rightarrow> True | Some (Assign v) \<Rightarrow> 0 \<le> v | Some (Increment v) \<Rightarrow> 0 \<le> v)"
| "stock_safe x = True"

definition nonneg_stock :: "Store \<Rightarrow> bool" where
  "nonneg_stock s = (\<forall>p\<in>set (products s). 0 \<le> currentStock p)"

fun item_writes :: "operation list \<Rightarrow> (string \<times> TransactionItem) list" where
  "item_writes [] = []"
| "item_writes (SetItem i d # xs) = (i, d) # item_writes xs"
| "item_writes (x # xs) = item_writes xs"

fun txn_writes :: "operation list \<Rightarrow> (string \<times> Transaction) list" where
  "txn_writes [] = []"
| "txn_writes (SetTransaction i d # xs) = (i, d) # txn_writes xs"
| "txn_writes (x # xs) = txn_writes xs"

fun is_delete :: "operation \<Rightarrow> bool" where
  "is_delete (DeleteItem i) = True"
| "is_delete (DeleteTransaction i) = True"
| "is_delete x = False"

definition detail_for :: "Product list \<Rightarrow> CartItem \<Rightarrow> ProductDetail \<Rightarrow> bool" where
  "detail_for ps item d \<longleftrightarrow>
     detail_ref d = cart_productId item
     \<and> getById ps (cart_productId item) = Some (detail_snap d)
     \<and> detail_item d = item\<lparr>availableStock := min (currentStock (detail_snap d)) (cart_quantity item)\<rparr>"

definition component_cost :: "Product list \<Rightarrow> BomEntry \<Rightarrow> rat" where
  "component_cost ps cmp =
     (case getById ps (bom_productId cmp) of None \<Rightarrow> 0 | Some c \<Rightarrow> or_zero (product_costPrice c))"

definition assembled_cost_spec :: "Product list \<Rightarrow> Product \<Rightarrow> rat" where
  "assembled_cost_spec ps p = (\<Sum>cmp\<leftarrow>the_bom p. component_cost ps cmp * bom_quantity cmp)"

definition blended_unit_cost :: "Product list \<Rightarrow> Product \<Rightarrow> rat \<Rightarrow> rat" where
  "blended_unit_cost ps p q =
     (let fromStock = min (currentStock p) q; shortfall = q - fromStock
      in (fromStock * or_zero (product_costPrice p) + shortfall * assembled_cost_spec ps p) / q)"

text \<open>
  A purchase line is found when its product is in the list the form has loaded; the patch a
  found line applies; the patches a log holds for one product id, in order.
\<close>

definition in_cache :: "Product list option \<Rightarrow> PurchaseLine \<Rightarrow> bool" where
  "in_cache cached l =
     ((case cached of None \<Rightarrow> None | Some ps \<Rightarrow> getById ps (line_productId l)) \<noteq> None)"

definition found_lines :: "Product list option \<Rightarrow> PurchaseLine list \<Rightarrow> PurchaseLine list" where
  "found_lines cached ls = filter (in_cache cached) ls"

definition purchase_patch :: "string \<Rightarrow> PurchaseLine \<Rightarrow> ProductPatch" where
  "purchase_patch supplier l =
     \<lparr>patch_currentStock = Some (Increment (line_quantity l)),
      patch_costPrice = Some (line_price l), patch_supplierId = Some supplier\<rparr>"

fun patches_for :: "string \<Rightarrow> operation list \<Rightarrow> ProductPatch list" where
  "patches_for j [] = []"
| "patches_for j (UpdateProduct i d # xs) = (if i = j then d # patches_for j xs else patches_for j xs)"
| "patches_for j (x # xs) = patches_for j xs"

text \<open>
  A sale line or an assembly refers to something missing when its product is not in the
  store, or when a component of that product's BOM is not.
\<close>

definition missing_component :: "Product list \<Rightarrow> Product \<Rightarrow> bool" where
  "missing_component ps p = list_ex (\<lambda>c. getById ps (bom_productId c) = None) (the_bom p)"

definition sale_line_missing :: "Product list \<Rightarrow> CartItem \<Rightarrow> bool" where
  "sale_line_missing ps l =
     (case getById ps (cart_productId l) of None \<Rightarrow> True | Some p \<Rightarrow> missing_component ps p)"

definition assembly_missing :: "Product list \<Rightarrow> string \<Rightarrow> bool" where
  "assembly_missing ps finalProductId =
     (case getById ps finalProductId of None \<Rightarrow> True | Some f \<Rightarrow> missing_component ps f)"

text \<open>
  The integer \<open>Math.floor\<close> yields for a quotient within the double range, and the test
  for that range; both for one BOM component against a product list. \<open>exact_floor\<close> is
  the floor of the exact quotient, and a safe integer is a whole number from 0 up to, not
  including, \<open>2^53\<close>.
\<close>

definition double_floor :: "rat \<Rightarrow> rat \<Rightarrow> int" where
  "double_floor a b = \<lfloor>round_double (a / b)\<rfloor>"

definition quotient_finite :: "rat \<Rightarrow> rat \<Rightarrow> bool" where
  "quotient_finite a b = (\<bar>round_double (a / b)\<bar> < pow2 1024)"

definition component_floor :: "Product list \<Rightarrow> BomEntry \<Rightarrow> int" where
  "component_floor ps cmp = double_floor (available_of ps cmp) (bom_quantity cmp)"

definition component_finite :: "Product list \<Rightarrow> BomEntry \<Rightarrow> bool" where
  "component_finite ps cmp = quotient_finite (available_of ps cmp) (bom_quantity cmp)"

definition exact_floor :: "Product list \<Rightarrow> BomEntry \<Rightarrow> int" where
  "exact_floor ps cmp = \<lfloor>available_of ps cmp / bom_quantity cmp\<rfloor>"

definition safe_integer :: "rat \<Rightarrow> bool" where
  "safe_integer x = (of_int \<lfloor>x\<rfloor> = x \<and> 0 \<le> x \<and> x < 2 ^ 53)"

section \<open>Concrete catalogues and carts\<close>

text \<open>
  Small stores for the scenarios of the specification: a product with a given id, stock,
  cost and BOM; a cart line; a sale form for the walk-in customer; a store with empty ledgers.
\<close>

definition mk_product :: "string \<Rightarrow> rat \<Rightarrow> rat option \<Rightarrow> BomEntry list option \<Rightarrow> Product" where
  "mk_product i st c b =
     \<lparr>product_id = i, product_name = i, product_sku = None, currentStock = st,
      product_costPrice = c, product_supplierId = None, bom = b, product_ownerId = ''u''\<rparr>"

definition mk_line :: "string \<Rightarrow> rat \<Rightarrow> rat \<Rightarrow> CartItem" where
  "mk_line i q pr =
     \<lparr>cart_productId = i, cart_productName = i, cart_quantity = q, cart_price = pr,
      availableStock = 0, cart_costPrice = 0\<rparr>"

definition mk_form :: "CartItem list \<Rightarrow> SaleForm" where
  "mk_form c =
     \<lparr>cart = c, clientId = ''consumidor-final'', clientName = ''Consumidor Final'',
      saleDate = 0, paymentStatus = COMPLETED, discount = 0\<rparr>"

definition mk_store :: "Product list \<Rightarrow> Store" where
  "mk_store ps = \<lparr>products = ps, transactions = [], transaction_items = []\<rparr>"

definition mk_item :: "string \<Rightarrow> string \<Rightarrow> string \<Rightarrow> rat \<Rightarrow> rat \<Rightarrow> rat option \<Rightarrow> string option \<Rightarrow> TransactionItem" where
  "mk_item i t p q pr c sk =
     \<lparr>item_id = i, transactionId = t, item_ownerId = ''u'', item_productId = p,
      item_productName = p, item_quantity = q, item_price = pr, item_costPrice = c,
      item_sku = sk\<rparr>"

text \<open>A supply of item ids: \<open>i\<close>, \<open>ii\<close>, \<open>iii\<close>, ...\<close>

definition item_ids :: "nat \<Rightarrow> string" where
  "item_ids k = replicate (Suc k) CHR ''i''"

text \<open>Scenario B and C: final product F with BOM [C x 2], no finished stock.\<close>

definition scenario_store :: "rat \<Rightarrow> Store" where
  "scenario_store c_stock =
     mk_store [mk_product ''F'' 0 (Some 30) (Some [\<lparr>bom_productId = ''C'', bom_quantity = 2\<rparr>]),
               mk_product ''C'' c_stock (Some 4) None]"

text \<open>Two final products that draw on the same component.\<close>

definition shared_store :: Store where
  "shared_store =
     mk_store [mk_product ''F1'' 0 None (Some [\<lparr>bom_productId = ''C'', bom_quantity = 2\<rparr>]),
               mk_product ''F2'' 0 None (Some [\<lparr>bom_productId = ''C'', bom_quantity = 3\<rparr>]),
               mk_product ''C'' 10 (Some 4) None]"

text \<open>Scenario E after the assembly of 2 F: 4 C consumed, 2 F credited, one ASSEMBLY transaction.\<close>

definition assembled_store :: Store where
  "assembled_store =
     \<lparr>products = [mk_product ''F'' 2 (Some 30) (Some [\<lparr>bom_productId = ''C'', bom_quantity = 2\<rparr>]),
                  mk_product ''C'' 6 (Some 4) None],
      transactions = [assembly_transaction ''u'' ''t'' 0],
      transaction_items = [mk_item ''i'' ''t'' ''C'' 4 0 (Some 4) None,
                           mk_item ''ii'' ''t'' ''F'' 2 0 (Some 0) None]\<rparr>"

text \<open>One F on the shelf, the rest to be assembled from C.\<close>

definition blend_store :: Store where
  "blend_store =
     mk_store [mk_product ''F'' 1 (Some 30) (Some [\<lparr>bom_productId = ''C'', bom_quantity = 2\<rparr>]),
               mk_product ''C'' 10 (Some 4) None]"

text \<open>Scenario D: a catalogue with P (10 in stock, last cost 15) and a purchase from supplier s1.\<close>

definition mk_purchase :: "PurchaseLine list \<Rightarrow> PurchaseForm" where
  "mk_purchase ls =
     \<lparr>purchase_supplierId = ''s1'', purchase_date = 0, purchase_invoiceNumber = None,
      purchase_notes = None, discountInput = 0, purchase_items = ls\<rparr>"

definition mk_pline :: "string \<Rightarrow> rat \<Rightarrow> rat \<Rightarrow> PurchaseLine" where
  "mk_pline i q pr = \<lparr>line_productId = i, line_quantity = q, line_price = pr\<rparr>"

definition catalogue_P :: "Product list" where
  "catalogue_P = [mk_product ''P'' 10 (Some 15) None]"

text \<open>
  The doubles that the inputs 0.1 and 0.07 are stored as, and a final product F whose BOM
  is one component with the given quantity.
\<close>

definition tenth :: rat where
  "tenth = round_double (1 / 10)"

definition seven_hundredths :: rat where
  "seven_hundredths = round_double (7 / 100)"

definition final_of :: "string \<Rightarrow> rat \<Rightarrow> Product" where
  "final_of c q = mk_product ''F'' 0 None (Some [\<lparr>bom_productId = c, bom_quantity = q\<rparr>])"

section \<open>Facts about the storage shim and the sale engine\<close>

lemmas eval_defs = onFinalizeSale_def runTransaction_def sale_updateFunction_def mk_form_def
  mk_line_def mk_store_def mk_product_def mk_item_def item_ids_def getById_def the_bom_def
  or_zero_def costPerUnit_def set_transaction_def set_item_def apply_patch_def merge_opt_def
  sale_transaction_def subtotal_def consumption_write_def Let_def name_or_def scenario_store_def

lemma getById_Some: "getById ps i = Some p \<Longrightarrow> p \<in> set ps \<and> product_id p = i"
  unfolding getById_def by (induction ps) (auto split: if_splits)

lemma getById_None_iff: "getById ps i = None \<longleftrightarrow> i \<notin> product_id ` set ps"
  unfolding getById_def by (induction ps) auto

lemma apply_patch_id [simp]: "product_id (apply_patch p d) = product_id p"
  by (simp add: apply_patch_def)

lemma storage_update_ids:
  "storage_update i d ps = Some ps' \<Longrightarrow> map product_id ps' = map product_id ps"
  by (induction ps arbitrary: ps') (auto split: if_splits)

lemma storage_update_defined:
  "i \<in> product_id ` set ps \<Longrightarrow> \<exists>ps'. storage_update i d ps = Some ps'"
  by (induction ps) auto

lemma apply_op_ids:
  "apply_op x s = Inr s' \<Longrightarrow> product_id ` set (products s') = product_id ` set (products s)"
proof (cases x)
  case (UpdateProduct i d)
  assume "apply_op x s = Inr s'"
  with UpdateProduct obtain ps where "storage_update i d (products s) = Some ps" "s' = s\<lparr>products := ps\<rparr>"
    by (auto split: option.splits)
  then show ?thesis using storage_update_ids[of i d "products s" ps]
    by (metis Store.select_convs(1) Store.surjective Store.update_convs(1) set_map)
qed auto

lemma apply_op_defined:
  "updates_existing (product_id ` set (products s)) x \<Longrightarrow> \<exists>s'. apply_op x s = Inr s'"
proof (cases x)
  case (UpdateProduct i d)
  assume "updates_existing (product_id ` set (products s)) x"
  with UpdateProduct have "i \<in> product_id ` set (products s)" by simp
  then obtain ps where "storage_update i d (products s) = Some ps"
    using storage_update_defined by blast
  with UpdateProduct show ?thesis by simp
qed auto

lemma commit_succeeds:
  "\<forall>x\<in>set ops. updates_existing (product_id ` set (products s)) x \<Longrightarrow> snd (commit ops s) = None"
proof (induction ops arbitrary: s)
  case Nil
  then show ?case by simp
next
  case (Cons x xs)
  then obtain s' where s': "apply_op x s = Inr s'"
    using apply_op_defined[of s x] by auto
  then have "product_id ` set (products s') = product_id ` set (products s)"
    by (rule apply_op_ids)
  with Cons s' show ?case by simp
qed

lemma storage_update_nonneg:
  assumes "storage_update i d ps = Some ps'" "\<forall>p\<in>set ps. 0 \<le> currentStock p"
    "case patch_currentStock d of None \<Rightarrow> True | Some (Assign v) \<Rightarrow> 0 \<le> v | Some (Increment v) \<Rightarrow> 0 \<le> v"
  shows "\<forall>p\<in>set ps'. 0 \<le> currentStock p"
  using assms
  by (induction ps arbitrary: ps') (auto split: if_splits option.splits stock_update.splits simp: apply_patch_def)

lemma apply_op_nonneg:
  "apply_op x s = Inr s' \<Longrightarrow> stock_safe x \<Longrightarrow> nonneg_stock s \<Longrightarrow> nonneg_stock s'"
  unfolding nonneg_stock_def
  by (cases x) (auto split: option.splits dest: storage_update_nonneg)

lemma commit_nonneg:
  "\<forall>x\<in>set ops. stock_safe x \<Longrightarrow> nonneg_stock s \<Longrightarrow> nonneg_stock (fst (commit ops s))"
proof (induction ops arbitrary: s)
  case Nil
  then show ?case by simp
next
  case (Cons x xs)
  show ?case
  proof (cases "apply_op x s")
    case (Inl e)
    with Cons.prems show ?thesis by simp
  next
    case (Inr s')
    with Cons.prems have "nonneg_stock s'" by (auto intro: apply_op_nonneg)
    with Cons Inr show ?thesis by simp
  qed
qed

lemma check_bom_props:
  "check_bom ps sh b = Inr cs \<Longrightarrow>
   \<forall>c\<in>set cs. getById ps (cons_ref c) = Some (cons_snap c)
               \<and> cons_required c \<le> currentStock (cons_snap c) \<and> 0 < cons_required c"
  by (induction b arbitrary: cs) (auto simp: Let_def split: option.splits if_splits sum.splits)

lemma read_cart_props:
  "read_cart ps c = Inr (ds, cs) \<Longrightarrow>
   list_all2 (detail_for ps) c ds
   \<and> (\<forall>c\<in>set cs. getById ps (cons_ref c) = Some (cons_snap c)
                 \<and> cons_required c \<le> currentStock (cons_snap c) \<and> 0 < cons_required c)"
proof (induction c arbitrary: ds cs)
  case Nil
  then show ?case by simp
next
  case (Cons item rest)
  from Cons.prems obtain p where p: "getById ps (cart_productId item) = Some p"
    by (auto split: option.splits)
  let ?from = "min (currentStock p) (cart_quantity item)"
  let ?short = "max 0 (cart_quantity item - ?from)"
  let ?chk = "if the_bom p \<noteq> [] then check_bom ps ?short (the_bom p) else Inr []"
  from Cons.prems p obtain c1 where c1: "?chk = Inr c1"
    by (auto simp: Let_def split: sum.splits)
  from Cons.prems p c1 obtain ds' cs' where r: "read_cart ps rest = Inr (ds', cs')"
    by (auto simp: Let_def split: sum.splits)
  from Cons.prems p c1 r have ds: "ds = \<lparr>detail_ref = cart_productId item, detail_snap = p,
        detail_item = item\<lparr>availableStock := ?from\<rparr>\<rparr> # ds'" and cs: "cs = c1 @ cs'"
    by (auto simp: Let_def)
  have c1p: "\<forall>c\<in>set c1. getById ps (cons_ref c) = Some (cons_snap c)
               \<and> cons_required c \<le> currentStock (cons_snap c) \<and> 0 < cons_required c"
    using c1 check_bom_props[of ps ?short "the_bom p" c1] by (auto split: if_splits)
  from Cons.IH[OF r] ds cs c1p p show ?case
    by (auto simp: detail_for_def)
qed

lemma assembledCost_defined:
  "\<forall>cmp\<in>set b. getById ps (bom_productId cmp) \<noteq> None \<Longrightarrow> \<exists>r. assembledCost ps acc b = Inr r"
  by (induction b arbitrary: acc) auto

lemma check_bom_components:
  "check_bom ps sh b = Inr cs \<Longrightarrow> \<forall>cmp\<in>set b. getById ps (bom_productId cmp) \<noteq> None"
  by (induction b arbitrary: cs) (auto simp: Let_def split: option.splits if_splits sum.splits)

lemma assembledCost_sum:
  "assembledCost ps acc b = Inr r \<Longrightarrow>
   r = acc + (\<Sum>cmp\<leftarrow>b. component_cost ps cmp * bom_quantity cmp)"
proof (induction b arbitrary: acc)
  case Nil
  then show ?case by simp
next
  case (Cons cmp rest)
  from Cons.prems obtain c where c: "getById ps (bom_productId cmp) = Some c"
    by (auto split: option.splits)
  with Cons.prems have "assembledCost ps (acc + or_zero (product_costPrice c) * bom_quantity cmp) rest = Inr r"
    by simp
  from Cons.IH[OF this] c show ?case by (simp add: component_cost_def)
qed

lemma item_writes_append: "item_writes (xs @ ys) = item_writes xs @ item_writes ys"
  by (induction xs rule: item_writes.induct) auto

lemma txn_writes_append: "txn_writes (xs @ ys) = txn_writes xs @ txn_writes ys"
  by (induction xs rule: txn_writes.induct) auto

lemma consumption_writes_plain:
  "item_writes (map consumption_write cs) = [] \<and> txn_writes (map consumption_write cs) = []
   \<and> (\<forall>x\<in>set (map consumption_write cs). \<not> is_delete x)"
  by (induction cs) (auto simp: consumption_write_def)

lemma write_details_safe:
  "write_details ps tid uid iid k ds = Inr ops \<Longrightarrow> list_all2 (detail_for ps) c ds \<Longrightarrow>
   (\<forall>x\<in>set ops. stock_safe x \<and> updates_existing (product_id ` set ps) x \<and> \<not> is_delete x)
   \<and> txn_writes ops = []"
proof (induction ds arbitrary: k ops c)
  case Nil
  then show ?case by simp
next
  case (Cons d rest)
  from Cons.prems(2) obtain item c' where c: "c = item # c'" "detail_for ps item d" "list_all2 (detail_for ps) c' rest"
    by (auto simp: list_all2_Cons2)
  from Cons.prems(1) obtain ops' where ops': "write_details ps tid uid iid (Suc k) rest = Inr ops'"
    by (auto simp: Let_def split: sum.splits)
  from Cons.prems(1) ops' obtain it where ops: "ops = SetItem (iid k) it # UpdateProduct (detail_ref d)
      \<lparr>patch_currentStock = Some (Assign (currentStock (detail_snap d) - availableStock (detail_item d))),
       patch_costPrice = None, patch_supplierId = None\<rparr> # ops'"
    by (auto simp: Let_def split: sum.splits)
  have "detail_ref d \<in> product_id ` set ps"
    using c(2) getById_Some[of ps "cart_productId item" "detail_snap d"] by (force simp: detail_for_def)
  moreover have "0 \<le> currentStock (detail_snap d) - availableStock (detail_item d)"
    using c(2) by (auto simp: detail_for_def)
  ultimately show ?case using Cons.IH[OF ops' c(3)] ops by auto
qed

lemma write_details_items:
  "write_details ps tid uid iid k ds = Inr ops \<Longrightarrow>
   length (item_writes ops) = length ds
   \<and> (\<forall>j<length ds. let d = ds ! j; it = snd (item_writes ops ! j); q = cart_quantity (detail_item d) in
         fst (item_writes ops ! j) = iid (k + j)
         \<and> item_id it = iid (k + j) \<and> transactionId it = tid \<and> item_ownerId it = uid
         \<and> item_productId it = cart_productId (detail_item d)
         \<and> item_quantity it = q \<and> item_price it = cart_price (detail_item d)
         \<and> item_costPrice it =
             Some (costPerUnit q (availableStock (detail_item d))
                     (max 0 (q - availableStock (detail_item d)))
                     (or_zero (product_costPrice (detail_snap d)))
                     (assembled_cost_spec ps (detail_snap d))))"
proof (induction ds arbitrary: k ops)
  case Nil
  then show ?case by simp
next
  case (Cons d rest)
  let ?asm = "if the_bom (detail_snap d) \<noteq> [] then assembledCost ps 0 (the_bom (detail_snap d)) else Inr 0"
  from Cons.prems obtain a where a: "?asm = Inr a"
    by (auto simp: Let_def split: sum.splits)
  have a_eq: "a = assembled_cost_spec ps (detail_snap d)"
    using a assembledCost_sum[of ps 0 "the_bom (detail_snap d)" a]
    by (auto simp: assembled_cost_spec_def split: if_splits)
  from Cons.prems a obtain ops' where ops': "write_details ps tid uid iid (Suc k) rest = Inr ops'"
    by (auto simp: Let_def split: sum.splits)
  define it where "it = \<lparr>item_id = iid k, transactionId = tid, item_ownerId = uid,
                          item_productId = cart_productId (detail_item d),
                          item_productName = cart_productName (detail_item d),
                          item_quantity = cart_quantity (detail_item d),
                          item_price = cart_price (detail_item d),
                          item_costPrice =
                            Some (costPerUnit (cart_quantity (detail_item d)) (availableStock (detail_item d))
                                    (max 0 (cart_quantity (detail_item d) - availableStock (detail_item d)))
                                    (or_zero (product_costPrice (detail_snap d))) a),
                          item_sku = None\<rparr>"
  from Cons.prems a ops' have iw: "item_writes ops = (iid k, it) # item_writes ops'"
    by (auto simp: Let_def it_def split: sum.splits if_splits)
  note IH = Cons.IH[OF ops']
  have l: "length (item_writes ops) = length (d # rest)" using IH iw by simp
  have "\<forall>j<length (d # rest). let d' = (d # rest) ! j; it' = snd (item_writes ops ! j); q = cart_quantity (detail_item d') in
         fst (item_writes ops ! j) = iid (k + j)
         \<and> item_id it' = iid (k + j) \<and> transactionId it' = tid \<and> item_ownerId it' = uid
         \<and> item_productId it' = cart_productId (detail_item d')
         \<and> item_quantity it' = q \<and> item_price it' = cart_price (detail_item d')
         \<and> item_costPrice it' =
             Some (costPerUnit q (availableStock (detail_item d'))
                     (max 0 (q - availableStock (detail_item d')))
                     (or_zero (product_costPrice (detail_snap d')))
                     (assembled_cost_spec ps (detail_snap d')))"
  proof (intro allI impI)
    fix j assume j: "j < length (d # rest)"
    show "let d' = (d # rest) ! j; it' = snd (item_writes ops ! j); q = cart_quantity (detail_item d') in
         fst (item_writes ops ! j) = iid (k + j)
         \<and> item_id it' = iid (k + j) \<and> transactionId it' = tid \<and> item_ownerId it' = uid
         \<and> item_productId it' = cart_productId (detail_item d')
         \<and> item_quantity it' = q \<and> item_price it' = cart_price (detail_item d')
         \<and> item_costPrice it' =
             Some (costPerUnit q (availableStock (detail_item d'))
                     (max 0 (q - availableStock (detail_item d')))
                     (or_zero (product_costPrice (detail_snap d')))
                     (assembled_cost_spec ps (detail_snap d')))"
    proof (cases j)
      case 0
      then show ?thesis using iw a_eq by (simp add: it_def)
    next
      case (Suc j')
      with j have "j' < length rest" by simp
      with IH Suc iw show ?thesis by (simp add: Let_def)
    qed
  qed
  with l show ?case by blast
qed

lemma sale_ops_props:
  assumes "sale_updateFunction uid form tid iid s = Inr ops"
  shows "\<forall>x\<in>set ops. stock_safe x \<and> updates_existing (product_id ` set (products s)) x \<and> \<not> is_delete x"
proof -
  from assms obtain ds cs where r: "read_cart (products s) (cart form) = Inr (ds, cs)"
    by (auto simp: sale_updateFunction_def split: sum.splits)
  with assms obtain ops' where w: "write_details (products s) tid uid iid 0 ds = Inr ops'"
    and ops: "ops = SetTransaction tid (sale_transaction uid form tid) # ops' @ map consumption_write cs"
    by (auto simp: sale_updateFunction_def split: sum.splits)
  note rp = read_cart_props[OF r]
  have d: "\<forall>x\<in>set ops'. stock_safe x \<and> updates_existing (product_id ` set (products s)) x \<and> \<not> is_delete x"
    using write_details_safe[OF w] rp by blast
  have c: "\<forall>x\<in>set (map consumption_write cs). stock_safe x \<and> updates_existing (product_id ` set (products s)) x \<and> \<not> is_delete x"
  proof
    fix x assume "x \<in> set (map consumption_write cs)"
    then obtain c where c: "c \<in> set cs" "x = consumption_write c" by auto
    with rp have g: "getById (products s) (cons_ref c) = Some (cons_snap c)"
      and le: "cons_required c \<le> currentStock (cons_snap c)" by auto
    from getById_Some[OF g] have "cons_ref c \<in> product_id ` set (products s)" by force
    with le c(2) show "stock_safe x \<and> updates_existing (product_id ` set (products s)) x \<and> \<not> is_delete x"
      by (simp add: consumption_write_def)
  qed
  from d c ops show ?thesis by auto
qed

section \<open>Facts about the double quotient and the virtual stock loop\<close>

lemma pow2_powi: "pow2 e = 2 powi e"
  by (simp add: pow2_def power_int_def inverse_eq_divide power_one_over)

lemma pow2_pos: "0 < pow2 e"
  by (simp add: pow2_powi)

lemma pow2_add: "pow2 (i + j) = pow2 i * pow2 j"
  by (simp add: pow2_powi power_int_add)

lemma pow2_nonneg_exp: "0 \<le> e \<Longrightarrow> pow2 e = of_int (2 ^ nat e)"
  by (simp add: pow2_def)

lemma pow2_inverse_int: "e \<le> 0 \<Longrightarrow> 1 / pow2 e = of_int (2 ^ nat (- e))"
  by (cases "e = 0") (simp_all add: pow2_def)

lemma round_half_even_of_int: "round_half_even (of_int k) = k"
  by (simp add: round_half_even_def)

lemma round_half_even_mono: "x \<le> y \<Longrightarrow> round_half_even x \<le> round_half_even y"
proof -
  assume xy: "x \<le> y"
  then have f: "\<lfloor>x\<rfloor> \<le> \<lfloor>y\<rfloor>" by (rule floor_mono)
  show ?thesis
  proof (cases "\<lfloor>x\<rfloor> = \<lfloor>y\<rfloor>")
    case True
    with xy have "x - of_int \<lfloor>x\<rfloor> \<le> y - of_int \<lfloor>y\<rfloor>" by simp
    with True show ?thesis by (auto simp: round_half_even_def Let_def)
  next
    case False
    with f have "\<lfloor>x\<rfloor> + 1 \<le> \<lfloor>y\<rfloor>" by simp
    moreover have "round_half_even x \<le> \<lfloor>x\<rfloor> + 1" by (simp add: round_half_even_def Let_def)
    moreover have "\<lfloor>y\<rfloor> \<le> round_half_even y" by (simp add: round_half_even_def Let_def)
    ultimately show ?thesis by linarith
  qed
qed

lemma round_half_even_less:
  assumes "y < of_int K - 1 / 2"
  shows "round_half_even y < K"
proof -
  from assms have "y < of_int K" by linarith
  then have f: "\<lfloor>y\<rfloor> < K" by (simp add: floor_less_iff)
  show ?thesis
  proof (cases "\<lfloor>y\<rfloor> = K - 1")
    case True
    with assms have "y - of_int \<lfloor>y\<rfloor> < 1 / 2" by simp
    with True show ?thesis by (simp add: round_half_even_def Let_def)
  next
    case False
    with f have "\<lfloor>y\<rfloor> + 1 < K" by simp
    moreover have "round_half_even y \<le> \<lfloor>y\<rfloor> + 1" by (simp add: round_half_even_def Let_def)
    ultimately show ?thesis by linarith
  qed
qed

lemma round_double_int_quotient:
  fixes a b :: int
  assumes a0: "0 \<le> a" and a53: "a < 2 ^ 53" and b0: "0 < b" and b53: "b < 2 ^ 53"
  shows "of_int (a div b) \<le> round_double (of_int a / of_int b)
         \<and> round_double (of_int a / of_int b) < of_int (a div b) + 1"
proof (cases "a = 0")
  case True
  then show ?thesis by (simp add: round_double_def)
next
  case False
  with a0 have apos: "0 < a" by simp
  define x :: rat where "x = of_int a / of_int b"
  define n where "n = a div b"
  have xpos: "0 < x" using apos b0 by (simp add: x_def)
  have fx: "\<lfloor>x\<rfloor> = n" by (simp add: x_def n_def floor_divide_of_int_eq)
  have n0: "0 \<le> n" using a0 b0 by (simp add: n_def pos_imp_zdiv_nonneg_iff)
  have nx: "of_int n \<le> x" using fx of_int_floor_le[of x] by simp
  have dm: "a div b * b + a mod b = a" by (rule div_mult_mod_eq)
  have m0: "0 \<le> a mod b" and mb: "a mod b < b" using b0 by simp_all
  from dm m0 have "n * b \<le> a" unfolding n_def by linarith
  moreover have "n * 1 \<le> n * b" using n0 b0 by (intro mult_left_mono) simp_all
  ultimately have na: "n \<le> a" by simp
  have "(n + 1) * b = a div b * b + b" by (simp add: n_def algebra_simps)
  with dm mb have "a < (n + 1) * b" by linarith
  then have "1 \<le> (n + 1) * b - a" by simp
  then have "(1::rat) \<le> of_int ((n + 1) * b - a)" using of_int_le_iff[of 1 "(n + 1) * b - a", where ?'a = rat] by simp
  then have "1 / of_int b \<le> (of_int ((n + 1) * b - a) :: rat) / of_int b"
    using b0 by (simp add: divide_right_mono)
  also have "(of_int ((n + 1) * b - a) :: rat) / of_int b = of_int n + 1 - x"
    using b0 by (simp add: x_def field_simps)
  finally have gap: "1 / of_int b \<le> of_int n + 1 - x" .
  define e where "e = max (floor_log2 \<bar>x\<bar>) (- 1022)"
  define ulp where "ulp = pow2 (e - 52)"
  have ulp_pos: "0 < ulp" by (simp add: ulp_def pow2_pos)
  have rd: "round_double x = of_int (round_half_even (x / ulp)) * ulp"
    using xpos by (simp add: round_double_def Let_def e_def ulp_def)
  have bounds: "e \<le> 52 \<and> of_int b * ulp < 2"
  proof (cases "1 \<le> x")
    case True
    then have fl: "floor_log2 \<bar>x\<bar> = bitlen n - 1" using xpos fx by (simp add: floor_log2_def)
    from True have "1 \<le> \<lfloor>x\<rfloor>" by (simp add: le_floor_iff)
    with fx have n1: "1 \<le> n" by simp
    then have npos: "0 < n" by simp
    from na a53 have "n < 2 ^ nat 53" by simp
    then have b53': "bitlen n \<le> 53" by (simp add: bitlen_le_iff_power)
    from n1 have b1: "1 \<le> bitlen n" by (simp add: bitlen_ge_iff_power)
    from fl b1 have e: "e = bitlen n - 1" by (simp add: e_def)
    from bitlen_bounds[OF npos] have "2 ^ nat (bitlen n - 1) \<le> n" by simp
    then have "(of_int (2 ^ nat (bitlen n - 1)) :: rat) \<le> of_int n" by (simp only: of_int_le_iff)
    with b1 e have pe: "pow2 e \<le> of_int n" by (simp add: pow2_nonneg_exp)
    with nx have "pow2 e \<le> x" by linarith
    then have "of_int b * pow2 e \<le> of_int b * x" using b0 by (simp add: mult_left_mono)
    also have "of_int b * x = of_int a" using b0 by (simp add: x_def)
    also have "(of_int a :: rat) < 2 ^ 53" using a53 of_int_less_iff[of a "2 ^ 53", where ?'a = rat] by simp
    finally have lt: "of_int b * pow2 e < 2 ^ 53" .
    have "ulp = pow2 e * pow2 (- 52)" using pow2_add[of e "- 52"] by (simp add: ulp_def)
    then have "of_int b * ulp = (of_int b * pow2 e) * pow2 (- 52)" by simp
    also have "\<dots> < 2 ^ 53 * pow2 (- 52)" using lt pow2_pos[of "- 52"] by (simp add: mult_strict_right_mono)
    also have "(2::rat) ^ 53 * pow2 (- 52) = 2" by (simp add: pow2_def)
    finally have "of_int b * ulp < 2" .
    with e b53' show ?thesis by simp
  next
    case False
    then have "floor_log2 \<bar>x\<bar> \<le> 0" using xpos bitlen_nonneg by (simp add: floor_log2_def)
    then have e0: "e \<le> 0" by (simp add: e_def)
    have "ulp = pow2 e * pow2 (- 52)" using pow2_add[of e "- 52"] by (simp add: ulp_def)
    moreover have "pow2 e \<le> 1"
      using e0 by (cases "e = 0") (simp_all add: pow2_def divide_le_eq one_le_power)
    ultimately have ul: "ulp \<le> pow2 (- 52)" using pow2_pos[of "- 52"] by (simp add: mult_left_le_one_le)
    have bl: "(of_int b :: rat) < 2 ^ 53" using b53 of_int_less_iff[of b "2 ^ 53", where ?'a = rat] by simp
    have bp: "(0::rat) < of_int b" using b0 by simp
    have "of_int b * ulp \<le> of_int b * pow2 (- 52)" using ul bp by (simp add: mult_left_mono)
    also have "\<dots> < 2 ^ 53 * pow2 (- 52)" using bl pow2_pos[of "- 52"] by (simp add: mult_strict_right_mono)
    also have "(2::rat) ^ 53 * pow2 (- 52) = 2" by (simp add: pow2_def)
    finally have "of_int b * ulp < 2" .
    with e0 show ?thesis by simp
  qed
  then have e52: "e \<le> 52" and bulp: "of_int b * ulp < 2" by simp_all
  define M :: int where "M = 2 ^ nat (52 - e)"
  have inv: "1 / ulp = of_int M"
    using pow2_inverse_int[of "e - 52"] e52 by (simp add: ulp_def M_def)
  have scale: "of_int k / ulp = of_int (k * M)" for k :: int
  proof -
    have "of_int k / ulp = of_int k * (1 / ulp)" by simp
    also have "\<dots> = of_int k * of_int M" by (simp only: inv)
    finally show ?thesis by simp
  qed
  have mulp: "of_int M * ulp = 1" using inv ulp_pos by (simp add: field_simps)
  have "of_int (n * M) \<le> x / ulp" using nx ulp_pos scale[of n, symmetric] by (simp add: divide_right_mono)
  then have "round_half_even (of_int (n * M)) \<le> round_half_even (x / ulp)" by (rule round_half_even_mono)
  then have "n * M \<le> round_half_even (x / ulp)" by (simp only: round_half_even_of_int)
  then have "(of_int (n * M) :: rat) \<le> of_int (round_half_even (x / ulp))" by (simp only: of_int_le_iff)
  then have l1: "of_int (n * M) * ulp \<le> of_int (round_half_even (x / ulp)) * ulp"
    using ulp_pos by (simp only: mult_right_mono less_imp_le)
  have unscale: "(of_int (k * M) :: rat) * ulp = of_int k" for k :: int
  proof -
    have "(of_int (k * M) :: rat) * ulp = of_int k * (of_int M * ulp)" by (simp add: mult.assoc)
    then show ?thesis by (simp only: mulp mult_1_right)
  qed
  have "of_int n = (of_int (n * M) :: rat) * ulp" by (simp only: unscale)
  also note l1
  also have "of_int (round_half_even (x / ulp)) * ulp = round_double x" by (simp only: rd)
  finally have lower: "of_int n \<le> round_double x" .
  have bpos: "(0::rat) < of_int b * ulp" using b0 ulp_pos by simp
  have "1 / 2 < 1 / (of_int b * ulp)" using bulp bpos by (simp add: field_simps)
  also have "1 / (of_int b * ulp) = (1 / of_int b) / ulp" by simp
  also have "(1 / of_int b) / ulp \<le> (of_int n + 1 - x) / ulp"
    using gap ulp_pos by (intro divide_right_mono) simp_all
  also have "(of_int n + 1 - x) / ulp = of_int ((n + 1) * M) - x / ulp"
    using scale[of "n + 1"] by (simp add: diff_divide_distrib)
  finally have "x / ulp < of_int ((n + 1) * M) - 1 / 2" by linarith
  then have "round_half_even (x / ulp) < (n + 1) * M" by (rule round_half_even_less)
  then have "(of_int (round_half_even (x / ulp)) :: rat) < of_int ((n + 1) * M)" by (simp only: of_int_less_iff)
  then have u1: "of_int (round_half_even (x / ulp)) * ulp < of_int ((n + 1) * M) * ulp"
    using ulp_pos by (simp only: mult_strict_right_mono)
  have "round_double x = of_int (round_half_even (x / ulp)) * ulp" by (simp only: rd)
  also note u1
  also have "(of_int ((n + 1) * M) :: rat) * ulp = of_int (n + 1)" by (simp only: unscale)
  finally have upper: "round_double x < of_int n + 1" by simp
  from lower upper show ?thesis by (simp add: x_def n_def)
qed

lemma floor_quotient_finite:
  "quotient_finite a b \<Longrightarrow> floor_quotient a b = Fin (double_floor a b)"
  using pow2_pos[of 1024]
  by (auto simp: quotient_finite_def floor_quotient_def double_floor_def Let_def abs_less_iff)

lemma producible_finite:
  "component_finite ps cmp \<Longrightarrow> producible ps cmp = Fin (component_floor ps cmp)"
  by (simp add: component_finite_def producible_def component_floor_def floor_quotient_finite)

lemma safe_integer_quotient:
  assumes "safe_integer x" "safe_integer y" "0 < y"
  shows "quotient_finite x y \<and> double_floor x y = \<lfloor>x / y\<rfloor>"
proof -
  define a where "a = \<lfloor>x\<rfloor>"
  define b where "b = \<lfloor>y\<rfloor>"
  from assms(1) have ix: "of_int \<lfloor>x\<rfloor> = x" and x0: "0 \<le> x" and x53: "x < 2 ^ 53"
    unfolding safe_integer_def by blast+
  from assms(2) have iy: "of_int \<lfloor>y\<rfloor> = y" and y53: "y < 2 ^ 53"
    unfolding safe_integer_def by blast+
  have x: "x = of_int a" unfolding a_def by (rule ix[symmetric])
  have y: "y = of_int b" unfolding b_def by (rule iy[symmetric])
  have a0: "0 \<le> a" using x0 unfolding a_def by simp
  have a53: "a < 2 ^ 53" using x53 unfolding a_def by (simp add: floor_less_iff)
  have "(0::rat) < of_int b" using assms(3) by (simp only: y[symmetric])
  then have b0: "0 < b" by simp
  have b53: "b < 2 ^ 53" using y53 unfolding b_def by (simp add: floor_less_iff)
  note r = round_double_int_quotient[OF a0 a53 b0 b53]
  have fl: "\<lfloor>x / y\<rfloor> = a div b" by (simp add: x y floor_divide_of_int_eq)
  have n0: "0 \<le> a div b" using a0 b0 by (simp add: pos_imp_zdiv_nonneg_iff)
  have dm: "a div b * b + a mod b = a" by (rule div_mult_mod_eq)
  have m0: "0 \<le> a mod b" using b0 by simp
  from dm m0 have "a div b * b \<le> a" by linarith
  moreover have "a div b * 1 \<le> a div b * b" using n0 b0 by (intro mult_left_mono) simp_all
  ultimately have "a div b < 2 ^ 53" using a53 by simp
  then have "a div b + 1 \<le> 2 ^ 53" by simp
  then have "(of_int (a div b + 1) :: rat) \<le> of_int (2 ^ 53)" by (simp only: of_int_le_iff)
  then have le53: "(of_int (a div b) :: rat) + 1 \<le> 2 ^ 53" by simp
  have "(2::rat) ^ 53 < pow2 1024" by (simp add: pow2_def)
  with r le53 have up: "round_double (x / y) < pow2 1024" by (simp add: x y)
  from r n0 have "0 \<le> round_double (x / y)"
    using of_int_0_le_iff[of "a div b", where ?'a = rat] by (simp add: x y)
  with up have fin: "quotient_finite x y" by (simp add: quotient_finite_def)
  from r have "\<lfloor>round_double (x / y)\<rfloor> = a div b" by (simp add: x y floor_unique)
  with fin fl show ?thesis by (simp add: double_floor_def)
qed

lemma virtual_loop_malformed:
  "\<exists>c\<in>set b. bom_quantity c \<le> 0 \<Longrightarrow> virtual_loop ps acc b = 0"
  by (induction b arbitrary: acc) auto

lemma virtual_loop_min:
  "\<forall>c\<in>set b. 0 < bom_quantity c \<and> component_finite ps c \<Longrightarrow>
   virtual_loop ps (Fin m) b = Min (insert m (component_floor ps ` set b))"
proof (induction b arbitrary: m)
  case Nil
  then show ?case by simp
next
  case (Cons c rest)
  then have "virtual_loop ps (Fin m) (c # rest)
      = Min (insert (min m (component_floor ps c)) (component_floor ps ` set rest))"
    by (simp add: producible_finite)
  also have "\<dots> = Min (insert m (component_floor ps ` set (c # rest)))"
    by (cases "rest = []") (simp_all add: min.assoc)
  finally show ?case .
qed

lemma virtual_loop_wellformed:
  assumes "b \<noteq> []" "\<forall>c\<in>set b. 0 < bom_quantity c \<and> component_finite ps c"
  shows "virtual_loop ps PlusInfinity b = Min (component_floor ps ` set b)"
proof -
  from assms(1) obtain c rest where b: "b = c # rest" by (cases b) auto
  with assms(2) have "virtual_loop ps PlusInfinity b = virtual_loop ps (Fin (component_floor ps c)) rest"
    by (simp add: producible_finite)
  also have "\<dots> = Min (insert (component_floor ps c) (component_floor ps ` set rest))"
    using assms(2) b by (intro virtual_loop_min) simp
  finally show ?thesis using b by simp
qed

lemma computeVirtualStock_malformed:
  "\<exists>c\<in>set (the_bom f). bom_quantity c \<le> 0 \<Longrightarrow> computeVirtualStock (Some f) aps = 0"
  by (auto simp: computeVirtualStock_def the_bom_def split: option.splits
      intro!: virtual_loop_malformed)

lemma computeVirtualStock_wellformed:
  "the_bom f \<noteq> [] \<Longrightarrow> \<forall>c\<in>set (the_bom f). 0 < bom_quantity c \<and> component_finite ps c \<Longrightarrow>
   computeVirtualStock (Some f) (Some ps) = Min (component_floor ps ` set (the_bom f))"
  by (auto simp: computeVirtualStock_def the_bom_def virtual_loop_wellformed split: option.splits)

lemma safe_component:
  assumes "0 < bom_quantity c" "safe_integer (available_of ps c)" "safe_integer (bom_quantity c)"
  shows "component_finite ps c \<and> component_floor ps c = exact_floor ps c"
  using safe_integer_quotient[OF assms(2,3,1)]
  by (simp add: component_finite_def component_floor_def exact_floor_def)

lemma tenth_value: "tenth = 3602879701896397 / 36028797018963968"
  unfolding tenth_def by code_simp

lemma seven_hundredths_value: "seven_hundredths = 1261007895663739 / 18014398509481984"
  unfolding seven_hundredths_def by code_simp

lemma quotient_by_tenth: "round_double (1 / tenth) = 10"
  unfolding tenth_value by code_simp

lemma quotient_by_seven_hundredths: "round_double (7 / seven_hundredths) = 7036874417766399 / 70368744177664"
  unfolding seven_hundredths_value by code_simp

lemma floor_quotient_tenth: "floor_quotient 1 tenth = Fin 10"
  by (simp add: floor_quotient_def quotient_by_tenth pow2_def)

lemma floor_quotient_seven_hundredths: "floor_quotient 7 seven_hundredths = Fin 99"
  by (simp add: floor_quotient_def quotient_by_seven_hundredths pow2_def floor_eq_iff)

lemma exact_quotient_tenth: "\<lfloor>1 / tenth\<rfloor> = 9"
  unfolding tenth_value by (simp add: floor_eq_iff)

lemmas virtual_eval = computeVirtualStock_def final_of_def mk_product_def producible_def
  available_of_def getById_def exact_floor_def

section \<open>What a committed sale adds to the ledgers\<close>

lemma storage_set_fresh:
  "i \<notin> key ` set xs \<Longrightarrow> storage_set key merge with_id i d xs = xs @ [with_id i d]"
  by (induction xs) auto

lemma commit_items:
  assumes "commit ops s = (s', None)" "\<forall>x\<in>set ops. \<not> is_delete x"
    "distinct (map fst (item_writes ops))"
    "\<forall>i\<in>fst ` set (item_writes ops). i \<notin> item_id ` set (transaction_items s)"
  shows "transaction_items s' = transaction_items s @ map (\<lambda>(i, d). d\<lparr>item_id := i\<rparr>) (item_writes ops)"
  using assms
proof (induction ops arbitrary: s)
  case Nil
  then show ?case by simp
next
  case (Cons x xs)
  from Cons.prems(1) obtain s1 where s1: "apply_op x s = Inr s1" "commit xs s1 = (s', None)"
    by (auto split: sum.splits)
  show ?case
  proof (cases x)
    case (SetItem i d)
    from Cons.prems(4) SetItem have fresh: "i \<notin> item_id ` set (transaction_items s)" by simp
    with s1(1) SetItem have t1: "transaction_items s1 = transaction_items s @ [d\<lparr>item_id := i\<rparr>]"
      by (auto simp: set_item_def storage_set_fresh)
    have "\<forall>j\<in>fst ` set (item_writes xs). j \<notin> item_id ` set (transaction_items s1)"
      using Cons.prems(3,4) SetItem t1 by auto
    moreover have "distinct (map fst (item_writes xs))" using Cons.prems(3) SetItem by simp
    moreover have "\<forall>x\<in>set xs. \<not> is_delete x" using Cons.prems(2) by simp
    ultimately have "transaction_items s' = transaction_items s1 @ map (\<lambda>(i, d). d\<lparr>item_id := i\<rparr>) (item_writes xs)"
      using Cons.IH[OF s1(2)] by blast
    with t1 SetItem show ?thesis by simp
  next
    case (SetTransaction i d)
    with s1(1) have t1: "transaction_items s1 = transaction_items s" by auto
    with Cons.prems SetTransaction Cons.IH[OF s1(2)] show ?thesis by simp
  next
    case (UpdateProduct i d)
    with s1(1) have t1: "transaction_items s1 = transaction_items s" by (auto split: option.splits)
    with Cons.prems UpdateProduct Cons.IH[OF s1(2)] show ?thesis by simp
  next
    case (DeleteItem i)
    with Cons.prems(2) show ?thesis by simp
  next
    case (DeleteTransaction i)
    with Cons.prems(2) show ?thesis by simp
  qed
qed

lemma commit_transactions:
  assumes "commit ops s = (s', None)" "\<forall>x\<in>set ops. \<not> is_delete x"
    "distinct (map fst (txn_writes ops))"
    "\<forall>i\<in>fst ` set (txn_writes ops). i \<notin> txn_id ` set (transactions s)"
  shows "transactions s' = transactions s @ map (\<lambda>(i, d). d\<lparr>txn_id := i\<rparr>) (txn_writes ops)"
  using assms
proof (induction ops arbitrary: s)
  case Nil
  then show ?case by simp
next
  case (Cons x xs)
  from Cons.prems(1) obtain s1 where s1: "apply_op x s = Inr s1" "commit xs s1 = (s', None)"
    by (auto split: sum.splits)
  show ?case
  proof (cases x)
    case (SetTransaction i d)
    from Cons.prems(4) SetTransaction have fresh: "i \<notin> txn_id ` set (transactions s)" by simp
    with s1(1) SetTransaction have t1: "transactions s1 = transactions s @ [d\<lparr>txn_id := i\<rparr>]"
      by (auto simp: set_transaction_def storage_set_fresh)
    have "\<forall>j\<in>fst ` set (txn_writes xs). j \<notin> txn_id ` set (transactions s1)"
      using Cons.prems(3,4) SetTransaction t1 by auto
    moreover have "distinct (map fst (txn_writes xs))" using Cons.prems(3) SetTransaction by simp
    moreover have "\<forall>x\<in>set xs. \<not> is_delete x" using Cons.prems(2) by simp
    ultimately have "transactions s' = transactions s1 @ map (\<lambda>(i, d). d\<lparr>txn_id := i\<rparr>) (txn_writes xs)"
      using Cons.IH[OF s1(2)] by blast
    with t1 SetTransaction show ?thesis by simp
  next
    case (SetItem i d)
    with s1(1) have t1: "transactions s1 = transactions s" by auto
    with Cons.prems SetItem Cons.IH[OF s1(2)] show ?thesis by simp
  next
    case (UpdateProduct i d)
    with s1(1) have t1: "transactions s1 = transactions s" by (auto split: option.splits)
    with Cons.prems UpdateProduct Cons.IH[OF s1(2)] show ?thesis by simp
  next
    case (DeleteItem i)
    with Cons.prems(2) show ?thesis by simp
  next
    case (DeleteTransaction i)
    with Cons.prems(2) show ?thesis by simp
  qed
qed

lemma item_writes_ids:
  assumes "length iw = n" "\<forall>j<n. fst (iw ! j) = iid j \<and> item_id (snd (iw ! j)) = iid j"
    "inj_on iid {..<n}"
  shows "distinct (map fst iw)" "fst ` set iw = iid ` {..<n}"
    "map (\<lambda>(i, d). d\<lparr>item_id := i\<rparr>) iw = map snd iw"
proof -
  show "distinct (map fst iw)"
    unfolding distinct_conv_nth using assms by (auto simp: inj_on_def)
  show "fst ` set iw = iid ` {..<n}"
    using assms(1,2) by (force simp: set_conv_nth image_iff)
  show "map (\<lambda>(i, d). d\<lparr>item_id := i\<rparr>) iw = map snd iw"
  proof (rule nth_equalityI)
    show "length (map (\<lambda>(i, d). d\<lparr>item_id := i\<rparr>) iw) = length (map snd iw)" by simp
    fix j assume "j < length (map (\<lambda>(i, d). d\<lparr>item_id := i\<rparr>) iw)"
    then have j: "j < n" using assms(1) by simp
    with assms(2) have "fst (iw ! j) = item_id (snd (iw ! j))" by simp
    then show "map (\<lambda>(i, d). d\<lparr>item_id := i\<rparr>) iw ! j = map snd iw ! j"
      using j assms(1) by (simp add: case_prod_beta)
  qed
qed

lemma sale_success:
  assumes ok: "onFinalizeSale uid form tid iid s = (s', None)"
    and ftid: "tid \<notin> txn_id ` set (transactions s)"
    and inj: "inj_on iid {..<length (cart form)}"
    and fiid: "\<forall>k<length (cart form). iid k \<notin> item_id ` set (transaction_items s)"
  shows "\<exists>ds ops. list_all2 (detail_for (products s)) (cart form) ds
           \<and> write_details (products s) tid uid iid 0 ds = Inr ops
           \<and> transaction_items s' = transaction_items s @ map snd (item_writes ops)
           \<and> transactions s' = transactions s @ [sale_transaction uid form tid]"
proof -
  from ok have ne: "cart form \<noteq> []" by (auto simp: onFinalizeSale_def split: if_splits)
  with ok obtain all_ops where u: "sale_updateFunction uid form tid iid s = Inr all_ops"
    and c: "commit all_ops s = (s', None)"
    by (auto simp: onFinalizeSale_def runTransaction_def split: sum.splits)
  from u obtain ds cs where r: "read_cart (products s) (cart form) = Inr (ds, cs)"
    by (auto simp: sale_updateFunction_def split: sum.splits)
  with u obtain ops where w: "write_details (products s) tid uid iid 0 ds = Inr ops"
    and all_ops: "all_ops = SetTransaction tid (sale_transaction uid form tid) # ops @ map consumption_write cs"
    by (auto simp: sale_updateFunction_def split: sum.splits)
  from read_cart_props[OF r] have la: "list_all2 (detail_for (products s)) (cart form) ds" by blast
  then have len: "length ds = length (cart form)" by (simp add: list_all2_lengthD)
  note wi = write_details_items[OF w]
  from write_details_safe[OF w la] have tw: "txn_writes ops = []" by blast
  have nd: "\<forall>x\<in>set all_ops. \<not> is_delete x" using sale_ops_props[OF u] by blast
  have iw: "item_writes all_ops = item_writes ops"
    by (simp add: all_ops item_writes_append consumption_writes_plain)
  have txw: "txn_writes all_ops = [(tid, sale_transaction uid form tid)]"
    by (simp add: all_ops txn_writes_append consumption_writes_plain tw)
  have ids: "\<forall>j<length (cart form). fst (item_writes ops ! j) = iid j \<and> item_id (snd (item_writes ops ! j)) = iid j"
    using wi len by (simp add: Let_def)
  have l: "length (item_writes ops) = length (cart form)" using wi len by simp
  note facts = item_writes_ids[OF l ids inj]
  have "transaction_items s' = transaction_items s @ map (\<lambda>(i, d). d\<lparr>item_id := i\<rparr>) (item_writes all_ops)"
  proof (rule commit_items[OF c nd])
    show "distinct (map fst (item_writes all_ops))" using facts(1) iw by simp
    show "\<forall>i\<in>fst ` set (item_writes all_ops). i \<notin> item_id ` set (transaction_items s)"
      using facts(2) iw fiid by auto
  qed
  then have items: "transaction_items s' = transaction_items s @ map snd (item_writes ops)"
    using facts(3) iw by simp
  have "transactions s' = transactions s @ map (\<lambda>(i, d). d\<lparr>txn_id := i\<rparr>) (txn_writes all_ops)"
    by (rule commit_transactions[OF c nd]) (use txw ftid in auto)
  then have "transactions s' = transactions s @ [sale_transaction uid form tid]"
    using txw by (simp add: sale_transaction_def)
  with la w items show ?thesis by blast
qed

lemma item_ids_inj: "inj_on item_ids A"
proof (rule inj_onI)
  fix x y assume "item_ids x = item_ids y"
  then have "length (item_ids x) = length (item_ids y)" by simp
  then show "x = y" by (simp add: item_ids_def)
qed

lemma blend_sale_ok:
  "onFinalizeSale ''u'' (mk_form [mk_line ''F'' 3 100]) ''t'' item_ids blend_store
   = (fst (onFinalizeSale ''u'' (mk_form [mk_line ''F'' 3 100]) ''t'' item_ids blend_store), None)"
  by (simp add: eval_defs blend_store_def)

section \<open>Facts about purchases, assemblies and missing products\<close>

lemma storage_update_getById:
  "storage_update i d ps = Some ps' \<Longrightarrow>
   getById ps' j = (if j = i then map_option (\<lambda>p. apply_patch p d) (getById ps i) else getById ps j)"
proof (induction ps arbitrary: ps')
  case Nil
  then show ?case by simp
next
  case (Cons p ps)
  show ?case
  proof (cases "product_id p = i")
    case True
    with Cons.prems show ?thesis by (auto simp: getById_def)
  next
    case False
    with Cons.prems obtain ps1 where ps1: "storage_update i d ps = Some ps1" "ps' = p # ps1"
      by auto
    from Cons.IH[OF ps1(1)] ps1(2) False show ?thesis by (auto simp: getById_def)
  qed
qed

lemma apply_op_getById:
  "apply_op x s = Inr s' \<Longrightarrow>
   getById (products s') j = map_option (\<lambda>p. foldl apply_patch p (patches_for j [x])) (getById (products s) j)"
proof (cases x)
  case (UpdateProduct i d)
  assume a: "apply_op x s = Inr s'"
  with UpdateProduct obtain ps where ps: "storage_update i d (products s) = Some ps" "s' = s\<lparr>products := ps\<rparr>"
    by (auto split: option.splits)
  from storage_update_getById[OF ps(1), of j] ps(2) UpdateProduct show ?thesis
    by (auto simp: option.map_ident)
qed (auto simp: option.map_ident)

lemma patches_for_append: "patches_for j (xs @ ys) = patches_for j xs @ patches_for j ys"
  by (induction xs rule: patches_for.induct) auto

lemma commit_getById:
  "commit ops s = (s', None) \<Longrightarrow>
   getById (products s') j = map_option (\<lambda>p. foldl apply_patch p (patches_for j ops)) (getById (products s) j)"
proof (induction ops arbitrary: s)
  case Nil
  then show ?case by (simp add: option.map_ident)
next
  case (Cons x xs)
  from Cons.prems obtain s1 where s1: "apply_op x s = Inr s1" "commit xs s1 = (s', None)"
    by (auto split: sum.splits)
  have p: "patches_for j (x # xs) = patches_for j [x] @ patches_for j xs"
    using patches_for_append[of j "[x]" xs] by simp
  from Cons.IH[OF s1(2)] apply_op_getById[OF s1(1), of j] show ?case
    unfolding p by (simp add: option.map_comp comp_def)
qed

lemma purchase_lines_plain:
  "(\<forall>x\<in>set (purchase_lines cached tid uid spl iid k ls). \<not> is_delete x)
   \<and> txn_writes (purchase_lines cached tid uid spl iid k ls) = []"
  by (induction ls arbitrary: k) (auto split: option.splits)

lemma purchase_lines_existing:
  "\<forall>l\<in>set (found_lines cached ls). line_productId l \<in> ids \<Longrightarrow>
   \<forall>x\<in>set (purchase_lines cached tid uid spl iid k ls). updates_existing ids x"
  by (induction ls arbitrary: k) (auto simp: found_lines_def in_cache_def split: option.splits)

lemma purchase_lines_patches:
  "patches_for j (purchase_lines cached tid uid spl iid k ls)
   = map (purchase_patch spl) (filter (\<lambda>l. line_productId l = j) (found_lines cached ls))"
  by (induction ls arbitrary: k)
     (auto simp: found_lines_def in_cache_def purchase_patch_def split: option.splits)

lemma purchase_lines_items:
  "map (\<lambda>x. item_productId (snd x)) (item_writes (purchase_lines cached tid uid spl iid k ls))
     = map line_productId (found_lines cached ls)
   \<and> map (\<lambda>x. item_quantity (snd x)) (item_writes (purchase_lines cached tid uid spl iid k ls))
     = map line_quantity (found_lines cached ls)
   \<and> map (\<lambda>x. item_price (snd x)) (item_writes (purchase_lines cached tid uid spl iid k ls))
     = map line_price (found_lines cached ls)
   \<and> (\<forall>x\<in>set (item_writes (purchase_lines cached tid uid spl iid k ls)).
        item_id (snd x) = fst x \<and> transactionId (snd x) = tid
        \<and> fst x \<in> iid ` {k..<k + length ls})"
proof (induction ls arbitrary: k)
  case Nil
  then show ?case by (simp add: found_lines_def)
next
  case (Cons l rest)
  have sub: "iid ` {Suc k..<Suc k + length rest} \<subseteq> iid ` {k..<k + length (l # rest)}"
    by (intro image_mono) auto
  have here: "iid k \<in> iid ` {k..<k + length (l # rest)}" by simp
  show ?case
  proof (cases "in_cache cached l")
    case True
    then obtain p where p: "(case cached of None \<Rightarrow> None | Some ps \<Rightarrow> getById ps (line_productId l)) = Some p"
      by (auto simp: in_cache_def)
    from True have f: "found_lines cached (l # rest) = l # found_lines cached rest"
      by (simp add: found_lines_def)
    show ?thesis using Cons.IH[of "Suc k"] sub here unfolding f
      by (simp add: p) blast
  next
    case False
    then have p: "(case cached of None \<Rightarrow> None | Some ps \<Rightarrow> getById ps (line_productId l)) = None"
      by (auto simp: in_cache_def)
    from False have f: "found_lines cached (l # rest) = found_lines cached rest"
      by (simp add: found_lines_def)
    show ?thesis using Cons.IH[of "Suc k"] sub unfolding f
      by (simp add: p) blast
  qed
qed

lemma purchase_lines_distinct:
  "inj_on iid {k..<k + length ls} \<Longrightarrow>
   distinct (map fst (item_writes (purchase_lines cached tid uid spl iid k ls)))"
proof (induction ls arbitrary: k)
  case Nil
  then show ?case by simp
next
  case (Cons l rest)
  have sub: "{Suc k..<Suc k + length rest} \<subseteq> {k..<k + length (l # rest)}" by auto
  with Cons.prems have inj': "inj_on iid {Suc k..<Suc k + length rest}"
    by (meson inj_on_subset)
  note IH = Cons.IH[OF inj']
  have notin: "iid k \<notin> fst ` set (item_writes (purchase_lines cached tid uid spl iid (Suc k) rest))"
  proof
    assume "iid k \<in> fst ` set (item_writes (purchase_lines cached tid uid spl iid (Suc k) rest))"
    then obtain m where m: "m \<in> {Suc k..<Suc k + length rest}" "iid k = iid m"
      using purchase_lines_items[of cached tid uid spl iid "Suc k" rest] by auto
    with Cons.prems have "k = m" by (auto simp: inj_on_def)
    with m(1) show False by simp
  qed
  show ?case using IH notin by (auto split: option.splits)
qed

lemma item_ids_already_set:
  "\<forall>x\<in>set iw. item_id (snd x) = fst x \<Longrightarrow> map (\<lambda>(i, d). d\<lparr>item_id := i\<rparr>) iw = map snd iw"
  by (induction iw) auto

lemma foldl_purchase_patches:
  "ls \<noteq> [] \<Longrightarrow>
   currentStock (foldl apply_patch p (map (purchase_patch spl) ls))
     = currentStock p + sum_list (map line_quantity ls)
   \<and> product_costPrice (foldl apply_patch p (map (purchase_patch spl) ls)) = Some (line_price (last ls))
   \<and> product_supplierId (foldl apply_patch p (map (purchase_patch spl) ls)) = Some spl"
proof (induction ls rule: rev_induct)
  case Nil
  then show ?case by simp
next
  case (snoc l ls)
  show ?case
  proof (cases "ls = []")
    case True
    then show ?thesis by (simp add: apply_patch_def purchase_patch_def merge_opt_def)
  next
    case False
    with snoc.IH show ?thesis by (simp add: apply_patch_def purchase_patch_def merge_opt_def)
  qed
qed

lemma purchase_commit:
  assumes st: "\<forall>l\<in>set (found_lines cached (purchase_items values)).
                 line_productId l \<in> product_id ` set (products s)"
    and ftid: "tid \<notin> txn_id ` set (transactions s)"
    and inj: "inj_on iid {..<length (purchase_items values)}"
    and fiid: "\<forall>k<length (purchase_items values). iid k \<notin> item_id ` set (transaction_items s)"
  shows "\<exists>s'. onFinalizePurchase cached uid values tid iid s = (s', None)
      \<and> transactions s' = transactions s @ [purchase_transaction uid values tid]
      \<and> txn_type (purchase_transaction uid values tid) = OUT
      \<and> netTotal (purchase_transaction uid values tid)
          = purchase_subtotal (purchase_items values) - discountInput values
      \<and> (\<exists>new. transaction_items s' = transaction_items s @ new
            \<and> map item_productId new = map line_productId (found_lines cached (purchase_items values))
            \<and> map item_quantity new = map line_quantity (found_lines cached (purchase_items values))
            \<and> map item_price new = map line_price (found_lines cached (purchase_items values)))
      \<and> (\<forall>l\<in>set (found_lines cached (purchase_items values)).
            \<exists>p p'. getById (products s) (line_productId l) = Some p
              \<and> getById (products s') (line_productId l) = Some p'
              \<and> currentStock p' = currentStock p
                  + sum_list (map line_quantity
                      (filter (\<lambda>m. line_productId m = line_productId l)
                         (found_lines cached (purchase_items values))))
              \<and> product_costPrice p' = Some (line_price (last
                      (filter (\<lambda>m. line_productId m = line_productId l)
                         (found_lines cached (purchase_items values)))))
              \<and> product_supplierId p' = Some (purchase_supplierId values))
      \<and> (\<forall>j. j \<notin> line_productId ` set (found_lines cached (purchase_items values)) \<longrightarrow>
            getById (products s') j = getById (products s) j)"
proof -
  let ?ls = "purchase_items values"
  let ?found = "found_lines cached ?ls"
  let ?spl = "purchase_supplierId values"
  let ?lines = "purchase_lines cached tid uid ?spl iid 0 ?ls"
  let ?t = "purchase_transaction uid values tid"
  let ?ops = "SetTransaction tid ?t # ?lines"
  obtain s' e where c0: "commit ?ops s = (s', e)" by (cases "commit ?ops s") auto
  have ex: "\<forall>x\<in>set ?ops. updates_existing (product_id ` set (products s)) x"
    using purchase_lines_existing[OF st] by simp
  from commit_succeeds[OF ex] c0 have e: "e = None" by simp
  with c0 have c: "commit ?ops s = (s', None)" by simp
  then have r: "onFinalizePurchase cached uid values tid iid s = (s', None)"
    by (simp add: onFinalizePurchase_def)
  have nd: "\<forall>x\<in>set ?ops. \<not> is_delete x" using purchase_lines_plain by simp
  have tw: "txn_writes ?ops = [(tid, ?t)]" using purchase_lines_plain by simp
  have iw: "item_writes ?ops = item_writes ?lines" by simp
  have "transactions s' = transactions s @ map (\<lambda>(i, d). d\<lparr>txn_id := i\<rparr>) (txn_writes ?ops)"
    by (rule commit_transactions[OF c nd]) (use tw ftid in auto)
  then have txns: "transactions s' = transactions s @ [?t]"
    using tw by (simp add: purchase_transaction_def)
  note pi = purchase_lines_items[of cached tid uid ?spl iid 0 ?ls]
  have px: "\<forall>x\<in>set (item_writes ?lines). fst x \<in> iid ` {0..<length ?ls}"
    and pid: "\<forall>x\<in>set (item_writes ?lines). item_id (snd x) = fst x"
    using pi by simp_all
  have "transaction_items s' = transaction_items s @ map (\<lambda>(i, d). d\<lparr>item_id := i\<rparr>) (item_writes ?ops)"
  proof (rule commit_items[OF c nd])
    show "distinct (map fst (item_writes ?ops))"
      unfolding iw using inj by (intro purchase_lines_distinct) (simp add: atLeast0LessThan)
    show "\<forall>i\<in>fst ` set (item_writes ?ops). i \<notin> item_id ` set (transaction_items s)"
    proof
      fix i assume "i \<in> fst ` set (item_writes ?ops)"
      then have "i \<in> fst ` set (item_writes ?lines)" by simp
      then obtain x where x: "x \<in> set (item_writes ?lines)" and i: "i = fst x" ..
      from px x have "fst x \<in> iid ` {0..<length ?ls}" by (rule bspec)
      then obtain k where "k \<in> {0..<length ?ls}" and "fst x = iid k" ..
      then have "k < length ?ls" "i = iid k" using i by simp_all
      with fiid show "i \<notin> item_id ` set (transaction_items s)" by simp
    qed
  qed
  also have "map (\<lambda>(i, d). d\<lparr>item_id := i\<rparr>) (item_writes ?ops) = map snd (item_writes ?lines)"
    unfolding iw using pid by (rule item_ids_already_set)
  finally have items: "transaction_items s' = transaction_items s @ map snd (item_writes ?lines)" .
  have new: "\<exists>new. transaction_items s' = transaction_items s @ new
            \<and> map item_productId new = map line_productId ?found
            \<and> map item_quantity new = map line_quantity ?found
            \<and> map item_price new = map line_price ?found"
    using items pi by (intro exI[of _ "map snd (item_writes ?lines)"]) (simp add: comp_def)
  have gb: "\<And>j. getById (products s') j
      = map_option (\<lambda>p. foldl apply_patch p
          (map (purchase_patch ?spl) (filter (\<lambda>l. line_productId l = j) ?found)))
          (getById (products s) j)"
    using commit_getById[OF c] by (simp add: purchase_lines_patches)
  have prods: "\<forall>l\<in>set ?found.
            \<exists>p p'. getById (products s) (line_productId l) = Some p
              \<and> getById (products s') (line_productId l) = Some p'
              \<and> currentStock p' = currentStock p
                  + sum_list (map line_quantity (filter (\<lambda>m. line_productId m = line_productId l) ?found))
              \<and> product_costPrice p' = Some (line_price (last
                      (filter (\<lambda>m. line_productId m = line_productId l) ?found)))
              \<and> product_supplierId p' = Some ?spl"
  proof
    fix l assume l: "l \<in> set ?found"
    let ?same = "filter (\<lambda>m. line_productId m = line_productId l) ?found"
    from l have ne: "?same \<noteq> []" by (auto simp: filter_empty_conv)
    from st l have "line_productId l \<in> product_id ` set (products s)" by blast
    then obtain p where p: "getById (products s) (line_productId l) = Some p"
      using getById_None_iff[of "products s" "line_productId l"] by auto
    let ?p' = "foldl apply_patch p (map (purchase_patch ?spl) ?same)"
    have "getById (products s') (line_productId l) = Some ?p'" using gb p by simp
    with p foldl_purchase_patches[OF ne, of p ?spl]
    show "\<exists>p p'. getById (products s) (line_productId l) = Some p
              \<and> getById (products s') (line_productId l) = Some p'
              \<and> currentStock p' = currentStock p + sum_list (map line_quantity ?same)
              \<and> product_costPrice p' = Some (line_price (last ?same))
              \<and> product_supplierId p' = Some ?spl"
      by blast
  qed
  have others: "\<forall>j. j \<notin> line_productId ` set ?found \<longrightarrow> getById (products s') j = getById (products s) j"
  proof (intro allI impI)
    fix j assume "j \<notin> line_productId ` set ?found"
    then have "filter (\<lambda>l. line_productId l = j) ?found = []" by (auto simp: filter_empty_conv)
    with gb[of j] show "getById (products s') j = getById (products s) j"
      by (simp add: option.map_ident)
  qed
  have "txn_type ?t = OUT" "netTotal ?t = purchase_subtotal ?ls - discountInput values"
    by (simp_all add: purchase_transaction_def)
  with r txns new prods others show ?thesis
    by (intro exI[of _ s'] conjI)
qed

lemma check_bom_missing:
  "\<exists>c\<in>set b. getById ps (bom_productId c) = None \<Longrightarrow> \<exists>e. check_bom ps sh b = Inl e"
  using check_bom_components[of ps sh b] by (cases "check_bom ps sh b") auto

lemma assembly_check_components:
  "assembly_check ps q b = Inr cs \<Longrightarrow> \<forall>cmp\<in>set b. getById ps (bom_productId cmp) \<noteq> None"
  by (induction b arbitrary: cs) (auto simp: Let_def split: option.splits if_splits sum.splits)

lemma assembly_check_missing:
  "\<exists>c\<in>set b. getById ps (bom_productId c) = None \<Longrightarrow> \<exists>e. assembly_check ps q b = Inl e"
  using assembly_check_components[of ps q b] by (cases "assembly_check ps q b") auto

lemma read_cart_missing:
  "\<exists>l\<in>set c. sale_line_missing ps l \<Longrightarrow> \<exists>e. read_cart ps c = Inl e"
proof (induction c)
  case Nil
  then show ?case by simp
next
  case (Cons item rest)
  show ?case
  proof (cases "getById ps (cart_productId item)")
    case None
    then show ?thesis by simp
  next
    case (Some p)
    let ?short = "max 0 (cart_quantity item - min (currentStock p) (cart_quantity item))"
    let ?chk = "if the_bom p \<noteq> [] then check_bom ps ?short (the_bom p) else Inr []"
    show ?thesis
    proof (cases ?chk)
      case (Inl e)
      with Some show ?thesis by (simp add: Let_def)
    next
      case (Inr cons)
      have "\<not> sale_line_missing ps item"
      proof
        assume "sale_line_missing ps item"
        with Some have m: "\<exists>c\<in>set (the_bom p). getById ps (bom_productId c) = None"
          by (simp add: sale_line_missing_def missing_component_def list_ex_iff)
        then have "the_bom p \<noteq> []" by auto
        with check_bom_missing[OF m, of ?short] Inr show False by auto
      qed
      with Cons.prems have "\<exists>l\<in>set rest. sale_line_missing ps l" by auto
      from Cons.IH[OF this] obtain e where "read_cart ps rest = Inl e" ..
      with Some Inr show ?thesis by (simp add: Let_def)
    qed
  qed
qed

lemma sale_missing_fails:
  assumes "\<exists>l\<in>set (cart form). sale_line_missing (products s) l"
  shows "\<exists>e. onFinalizeSale uid form tid iid s = (s, Some e)"
proof -
  from assms have ne: "cart form \<noteq> []" by auto
  from read_cart_missing[OF assms] obtain e where "read_cart (products s) (cart form) = Inl e" ..
  with ne show ?thesis
    by (simp add: onFinalizeSale_def runTransaction_def sale_updateFunction_def)
qed

lemma assembly_missing_fails:
  assumes "assembly_missing (products s) fid"
  shows "\<exists>e. processAssemblyToStock uid fid qty tid iid now s = (s, Some e)"
proof (cases "getById (products s) fid")
  case None
  then show ?thesis
    by (simp add: processAssemblyToStock_def runTransaction_def assembly_updateFunction_def)
next
  case (Some f)
  with assms have m: "\<exists>c\<in>set (the_bom f). getById (products s) (bom_productId c) = None"
    by (simp add: assembly_missing_def missing_component_def list_ex_iff)
  then have ne: "the_bom f \<noteq> []" by auto
  from assembly_check_missing[OF m] obtain e where "assembly_check (products s) qty (the_bom f) = Inl e" ..
  with Some ne show ?thesis
    by (simp add: processAssemblyToStock_def runTransaction_def assembly_updateFunction_def)
qed

lemmas purchase_eval_defs = onFinalizePurchase_def purchase_transaction_def purchase_subtotal_def
  mk_purchase_def mk_pline_def catalogue_P_def mk_store_def mk_product_def mk_item_def item_ids_def
  getById_def or_empty_def set_transaction_def set_item_def apply_patch_def merge_opt_def

section \<open>Sale: stock check for products without a BOM\<close>

text \<open>
  Claim C1. A sale line for a product without a BOM whose quantity exceeds the product's
  stock should fail with an insufficient-stock error and commit nothing. The guards of
  \<open>handleAddItem\<close> reject such a line, but the transaction body checks stock only for BOM
  components: with P in stock 3 times and a cart line of 5 P, the sale goes through, P's
  stock is written as 0 and an item of quantity 5 is recorded.
\<close>

theorem sale_without_bom_beyond_stock_succeeds:
  "handleAddItem_guards (Some (mk_product ''P'' 3 (Some 10) None)) 5
     (Some [mk_product ''P'' 3 (Some 10) None]) = Some InsufficientStock
   \<and> onFinalizeSale ''u'' (mk_form [mk_line ''P'' 5 50]) ''t'' item_ids
       (mk_store [mk_product ''P'' 3 (Some 10) None])
     = (\<lparr>products = [mk_product ''P'' 0 (Some 10) None],
         transactions = [sale_transaction ''u'' (mk_form [mk_line ''P'' 5 50]) ''t''],
         transaction_items = [mk_item ''i'' ''t'' ''P'' 5 50 (Some 6) None]\<rparr>, None)"
proof (intro conjI)
  show "handleAddItem_guards (Some (mk_product ''P'' 3 (Some 10) None)) 5
     (Some [mk_product ''P'' 3 (Some 10) None]) = Some InsufficientStock"
    by (simp add: handleAddItem_guards_def mk_product_def the_bom_def Let_def)
  show "onFinalizeSale ''u'' (mk_form [mk_line ''P'' 5 50]) ''t'' item_ids
       (mk_store [mk_product ''P'' 3 (Some 10) None])
     = (\<lparr>products = [mk_product ''P'' 0 (Some 10) None],
         transactions = [sale_transaction ''u'' (mk_form [mk_line ''P'' 5 50]) ''t''],
         transaction_items = [mk_item ''i'' ''t'' ''P'' 5 50 (Some 6) None]\<rparr>, None)"
    by (simp add: eval_defs)
qed

section \<open>Sale: atomicity of a failed sale\<close>

text \<open>
  Claim C3. When the sale fails, for whatever line and whatever reason, the store after
  the call is the store before it: no stock is changed and no transaction or item is
  written.
\<close>

theorem sale_failure_commits_nothing:
  "onFinalizeSale uid form tid iid s = (s', Some e) \<Longrightarrow> s' = s"
proof -
  assume a: "onFinalizeSale uid form tid iid s = (s', Some e)"
  show "s' = s"
  proof (cases "cart form = []")
    case True
    with a show ?thesis by (simp add: onFinalizeSale_def)
  next
    case False
    show ?thesis
    proof (cases "sale_updateFunction uid form tid iid s")
      case (Inl e')
      with a False show ?thesis by (simp add: onFinalizeSale_def runTransaction_def)
    next
      case (Inr ops)
      from sale_ops_props[OF Inr] have "snd (commit ops s) = None"
        by (intro commit_succeeds) blast
      with a False Inr show ?thesis by (simp add: onFinalizeSale_def runTransaction_def)
    qed
  qed
qed

text \<open>Scenario C: 3 F need 6 C, only 4 are there; the sale fails and the store is as before.\<close>

theorem sale_failure_commits_nothing_witness:
  "snd (onFinalizeSale ''u'' (mk_form [mk_line ''F'' 3 100]) ''t'' item_ids (scenario_store 4))
     = Some (InsufficientComponentStock ''C'' 6 4)
   \<and> fst (onFinalizeSale ''u'' (mk_form [mk_line ''F'' 3 100]) ''t'' item_ids (scenario_store 4))
     = scenario_store 4"
proof -
  have e: "snd (onFinalizeSale ''u'' (mk_form [mk_line ''F'' 3 100]) ''t'' item_ids (scenario_store 4))
     = Some (InsufficientComponentStock ''C'' 6 4)"
    by (simp add: onFinalizeSale_def runTransaction_def sale_updateFunction_def mk_form_def
        mk_line_def mk_store_def mk_product_def scenario_store_def getById_def the_bom_def
        name_or_def Let_def)
  then have "onFinalizeSale ''u'' (mk_form [mk_line ''F'' 3 100]) ''t'' item_ids (scenario_store 4)
     = (fst (onFinalizeSale ''u'' (mk_form [mk_line ''F'' 3 100]) ''t'' item_ids (scenario_store 4)),
        Some (InsufficientComponentStock ''C'' 6 4))"
    by (simp add: prod_eq_iff)
  from sale_failure_commits_nothing[OF this] e show ?thesis by simp
qed

section \<open>Sale: stock stays non-negative\<close>

text \<open>
  Claim C10. If no product has negative stock before a sale, none has after a successful
  sale: the sold product loses min(currentStock, quantity), and a component loses a
  required amount that was checked against its stock.
\<close>

theorem sale_keeps_stock_nonnegative:
  "nonneg_stock s \<Longrightarrow> onFinalizeSale uid form tid iid s = (s', None) \<Longrightarrow> nonneg_stock s'"
proof -
  assume n: "nonneg_stock s" and a: "onFinalizeSale uid form tid iid s = (s', None)"
  from a have ne: "cart form \<noteq> []" by (auto simp: onFinalizeSale_def split: if_splits)
  with a obtain ops where ops: "sale_updateFunction uid form tid iid s = Inr ops"
    by (auto simp: onFinalizeSale_def runTransaction_def split: sum.splits)
  with a ne have c: "commit ops s = (s', None)" by (simp add: onFinalizeSale_def runTransaction_def)
  from sale_ops_props[OF ops] have "\<forall>x\<in>set ops. stock_safe x" by blast
  from commit_nonneg[OF this n] c show ?thesis by simp
qed

text \<open>Scenario B: 3 F from 10 C; the sale succeeds and every stock is still non-negative.\<close>

theorem sale_keeps_stock_nonnegative_witness:
  "nonneg_stock (scenario_store 10)
   \<and> snd (onFinalizeSale ''u'' (mk_form [mk_line ''F'' 3 100]) ''t'' item_ids (scenario_store 10)) = None
   \<and> nonneg_stock (fst (onFinalizeSale ''u'' (mk_form [mk_line ''F'' 3 100]) ''t'' item_ids (scenario_store 10)))"
proof -
  have n: "nonneg_stock (scenario_store 10)"
    by (simp add: nonneg_stock_def scenario_store_def mk_store_def mk_product_def)
  have e: "snd (onFinalizeSale ''u'' (mk_form [mk_line ''F'' 3 100]) ''t'' item_ids (scenario_store 10)) = None"
    by (simp add: onFinalizeSale_def runTransaction_def sale_updateFunction_def mk_form_def
        mk_line_def mk_store_def mk_product_def scenario_store_def getById_def the_bom_def
        name_or_def consumption_write_def apply_patch_def merge_opt_def Let_def)
  then have "onFinalizeSale ''u'' (mk_form [mk_line ''F'' 3 100]) ''t'' item_ids (scenario_store 10)
     = (fst (onFinalizeSale ''u'' (mk_form [mk_line ''F'' 3 100]) ''t'' item_ids (scenario_store 10)), None)"
    by (simp add: prod_eq_iff)
  from sale_keeps_stock_nonnegative[OF n this] n e show ?thesis by simp
qed

section \<open>Sale: stock movements of a BOM product\<close>

text \<open>
  Scenario B as the specification gives it: 3 F are sold with no F on the shelf and 10 C in
  stock; F stays at 0, C goes to 4, and the item carries the assembled cost 2 x 4 = 8.
\<close>

lemma scenario_b_sale:
  "onFinalizeSale ''u'' (mk_form [mk_line ''F'' 3 100]) ''t'' item_ids (scenario_store 10)
   = (\<lparr>products = products (scenario_store 4),
       transactions = [sale_transaction ''u'' (mk_form [mk_line ''F'' 3 100]) ''t''],
       transaction_items = [mk_item ''i'' ''t'' ''F'' 3 100 (Some 8) None]\<rparr>, None)"
  by (simp add: eval_defs)

text \<open>
  Claim C2. After a successful sale of a BOM product the sold product has lost
  min(currentStock, quantity) and every BOM component has lost shortfall x quantityPerUnit.
  Each consumption write stores the stock read in step 1 minus its own amount, so when two
  cart lines draw on one component the later write overwrites the earlier one: one F1
  (2 C each) and one F2 (3 C each) sold from 10 C leave 7 C, where 5 would be right.
\<close>

theorem sale_shared_component_lost_update:
  "snd (onFinalizeSale ''u'' (mk_form [mk_line ''F1'' 1 100, mk_line ''F2'' 1 100]) ''t''
          item_ids shared_store) = None
   \<and> map currentStock
        (products (fst (onFinalizeSale ''u'' (mk_form [mk_line ''F1'' 1 100, mk_line ''F2'' 1 100])
                          ''t'' item_ids shared_store)))
     = [0, 0, 7]"
  by (simp add: eval_defs shared_store_def)

section \<open>Reversal\<close>

text \<open>Scenario E: assembling 2 F from 10 C gives the store \<open>assembled_store\<close>.\<close>

lemma scenario_e_assembly:
  "processAssemblyToStock ''u'' ''F'' 2 ''t'' item_ids 0 (scenario_store 10) = (assembled_store, None)"
  by (simp add: eval_defs processAssemblyToStock_def assembly_updateFunction_def
      assembled_store_def assembly_transaction_def)

text \<open>
  Scenario A and its reversal: 3 P sold from 10 leave 7; reverting the sale brings P back
  to 10 and removes the transaction and its item.
\<close>

lemma scenario_a_sale_then_revert:
  "onFinalizeSale ''u'' (mk_form [mk_line ''P'' 3 50]) ''t'' item_ids (mk_store catalogue_P)
   = (\<lparr>products = [mk_product ''P'' 7 (Some 15) None],
       transactions = [sale_transaction ''u'' (mk_form [mk_line ''P'' 3 50]) ''t''],
       transaction_items = [mk_item ''i'' ''t'' ''P'' 3 50 (Some 15) None]\<rparr>, None)
   \<and> handleRevert (sale_transaction ''u'' (mk_form [mk_line ''P'' 3 50]) ''t'') ''u''
       (Some [mk_item ''i'' ''t'' ''P'' 3 50 (Some 15) None])
       \<lparr>products = [mk_product ''P'' 7 (Some 15) None],
        transactions = [sale_transaction ''u'' (mk_form [mk_line ''P'' 3 50]) ''t''],
        transaction_items = [mk_item ''i'' ''t'' ''P'' 3 50 (Some 15) None]\<rparr>
     = (mk_store catalogue_P, None)"
  by (simp add: eval_defs catalogue_P_def handleRevert_def revert_ops_def freshItems_def
      stockAdjustment_def storage_delete_def)

text \<open>
  Claim C4. A reversal gives every surviving product the inverse adjustment, also for
  ASSEMBLY transactions, and then deletes the transaction and its items. The adjustment
  is \<open>+quantity\<close> for type IN and \<open>-quantity\<close> for every other type, so reverting the
  assembly of scenario E takes the 4 consumed C away a second time: C goes from 6 to 2
  and not back to 10, while F returns to 0.
\<close>

theorem revert_assembly_consumes_components_again:
  "handleRevert (assembly_transaction ''u'' ''t'' 0) ''u''
     (Some (transaction_items assembled_store)) assembled_store
   = (mk_store [mk_product ''F'' 0 (Some 30) (Some [\<lparr>bom_productId = ''C'', bom_quantity = 2\<rparr>]),
                mk_product ''C'' 2 (Some 4) None], None)"
  by (simp add: eval_defs handleRevert_def assembled_store_def assembly_transaction_def
      revert_ops_def freshItems_def stockAdjustment_def storage_delete_def)

section \<open>Virtual stock\<close>

text \<open>
  Claim C5, as the code has it. The virtual stock is 0 when the product or the product list
  is absent, when the BOM is absent or empty, and when some component has a quantity per
  unit of 0 or less. For a non-empty BOM with positive quantities whose quotients stay
  within the double range it is the minimum over the components of
  \<open>Math.floor(componentStock / quantityPerUnit)\<close>, the quotient being the IEEE double
  nearest to the exact one and a missing component counting as stock 0; the result then
  does not exceed that value of any single component. Stock and quantity stand for the
  doubles the products hold. When both are safe integers for every component, the value is
  the floor of the exact quotient, as the claim has it; for fractional quantities the two
  can differ by one.
\<close>

theorem computeVirtualStock_spec:
  "computeVirtualStock None aps = 0
   \<and> computeVirtualStock fp None = 0
   \<and> (the_bom f = [] \<longrightarrow> computeVirtualStock (Some f) aps = 0)
   \<and> ((\<exists>c\<in>set (the_bom f). bom_quantity c \<le> 0) \<longrightarrow> computeVirtualStock (Some f) aps = 0)
   \<and> (the_bom f \<noteq> [] \<and> (\<forall>c\<in>set (the_bom f). 0 < bom_quantity c \<and> component_finite ps c) \<longrightarrow>
        computeVirtualStock (Some f) (Some ps) = Min (component_floor ps ` set (the_bom f))
        \<and> (\<forall>c\<in>set (the_bom f). computeVirtualStock (Some f) (Some ps) \<le> component_floor ps c))
   \<and> (the_bom f \<noteq> []
        \<and> (\<forall>c\<in>set (the_bom f). 0 < bom_quantity c \<and> safe_integer (available_of ps c)
               \<and> safe_integer (bom_quantity c)) \<longrightarrow>
        computeVirtualStock (Some f) (Some ps) = Min (exact_floor ps ` set (the_bom f))
        \<and> (\<forall>c\<in>set (the_bom f). computeVirtualStock (Some f) (Some ps) \<le> exact_floor ps c))"
proof (intro conjI impI)
  show "computeVirtualStock None aps = 0" by (simp add: computeVirtualStock_def)
  show "computeVirtualStock fp None = 0"
    by (simp add: computeVirtualStock_def split: option.splits)
  show "computeVirtualStock (Some f) aps = 0" if "the_bom f = []"
    using that by (auto simp: computeVirtualStock_def the_bom_def split: option.splits)
  show "computeVirtualStock (Some f) aps = 0" if "\<exists>c\<in>set (the_bom f). bom_quantity c \<le> 0"
    using that by (rule computeVirtualStock_malformed)
next
  assume h: "the_bom f \<noteq> [] \<and> (\<forall>c\<in>set (the_bom f). 0 < bom_quantity c \<and> component_finite ps c)"
  then show m: "computeVirtualStock (Some f) (Some ps) = Min (component_floor ps ` set (the_bom f))"
    by (simp add: computeVirtualStock_wellformed)
  show "\<forall>c\<in>set (the_bom f). computeVirtualStock (Some f) (Some ps) \<le> component_floor ps c"
    unfolding m by simp
next
  assume h: "the_bom f \<noteq> []
        \<and> (\<forall>c\<in>set (the_bom f). 0 < bom_quantity c \<and> safe_integer (available_of ps c)
               \<and> safe_integer (bom_quantity c))"
  then have sc: "\<forall>c\<in>set (the_bom f). component_finite ps c \<and> component_floor ps c = exact_floor ps c"
    using safe_component by blast
  with h have "computeVirtualStock (Some f) (Some ps) = Min (component_floor ps ` set (the_bom f))"
    by (simp add: computeVirtualStock_wellformed)
  moreover have "component_floor ps ` set (the_bom f) = exact_floor ps ` set (the_bom f)"
    using sc by (intro image_cong) simp_all
  ultimately show m: "computeVirtualStock (Some f) (Some ps) = Min (exact_floor ps ` set (the_bom f))"
    by simp
  show "\<forall>c\<in>set (the_bom f). computeVirtualStock (Some f) (Some ps) \<le> exact_floor ps c"
    unfolding m by simp
qed

text \<open>
  11 C at 2 per unit give 5; 1 C at 0.1 per unit gives 10; a quantity of 0 gives 0.
\<close>

theorem computeVirtualStock_spec_witness:
  "computeVirtualStock (Some (final_of ''C'' 2)) (Some [mk_product ''C'' 11 None None]) = 5
   \<and> computeVirtualStock (Some (final_of ''C'' tenth)) (Some [mk_product ''C'' 1 None None]) = 10
   \<and> computeVirtualStock (Some (final_of ''C'' 0)) (Some [mk_product ''C'' 11 None None]) = 0"
proof -
  let ?c2 = "\<lparr>bom_productId = ''C'', bom_quantity = 2\<rparr>"
  let ?ct = "\<lparr>bom_productId = ''C'', bom_quantity = tenth\<rparr>"
  let ?ps11 = "[mk_product ''C'' 11 None None]"
  let ?ps1 = "[mk_product ''C'' 1 None None]"
  have b2: "the_bom (final_of ''C'' 2) = [?c2]" by (simp add: the_bom_def final_of_def mk_product_def)
  have bt: "the_bom (final_of ''C'' tenth) = [?ct]" by (simp add: the_bom_def final_of_def mk_product_def)
  have b0: "\<exists>c\<in>set (the_bom (final_of ''C'' 0)). bom_quantity c \<le> 0"
    by (simp add: the_bom_def final_of_def mk_product_def)
  have a11: "available_of ?ps11 ?c2 = 11" by (simp add: available_of_def getById_def mk_product_def)
  have a1: "available_of ?ps1 ?ct = 1" by (simp add: available_of_def getById_def mk_product_def)
  have h2: "the_bom (final_of ''C'' 2) \<noteq> []
        \<and> (\<forall>c\<in>set (the_bom (final_of ''C'' 2)). 0 < bom_quantity c
               \<and> safe_integer (available_of ?ps11 c) \<and> safe_integer (bom_quantity c))"
    unfolding b2 by (simp add: a11 safe_integer_def)
  have tpos: "0 < tenth" unfolding tenth_value by simp
  have ht: "the_bom (final_of ''C'' tenth) \<noteq> []
        \<and> (\<forall>c\<in>set (the_bom (final_of ''C'' tenth)). 0 < bom_quantity c \<and> component_finite ?ps1 c)"
    unfolding bt using tpos
    by (simp add: a1 component_finite_def quotient_finite_def quotient_by_tenth pow2_def)
  have e2: "exact_floor ?ps11 ?c2 = 5" by (simp add: exact_floor_def a11 floor_eq_iff)
  have ft: "component_floor ?ps1 ?ct = 10"
    by (simp add: component_floor_def double_floor_def a1 quotient_by_tenth)
  from computeVirtualStock_spec[where f = "final_of ''C'' 2" and ps = ?ps11] h2
  have "computeVirtualStock (Some (final_of ''C'' 2)) (Some ?ps11)
          = Min (exact_floor ?ps11 ` set (the_bom (final_of ''C'' 2)))" by blast
  then have r2: "computeVirtualStock (Some (final_of ''C'' 2)) (Some ?ps11) = 5"
    unfolding b2 by (simp add: e2)
  from computeVirtualStock_spec[where f = "final_of ''C'' tenth" and ps = ?ps1] ht
  have "computeVirtualStock (Some (final_of ''C'' tenth)) (Some ?ps1)
          = Min (component_floor ?ps1 ` set (the_bom (final_of ''C'' tenth)))" by blast
  then have rt: "computeVirtualStock (Some (final_of ''C'' tenth)) (Some ?ps1) = 10"
    unfolding bt by (simp add: ft)
  from computeVirtualStock_spec[where f = "final_of ''C'' 0" and aps = "Some ?ps11"] b0
  have r0: "computeVirtualStock (Some (final_of ''C'' 0)) (Some ?ps11) = 0" by blast
  from r2 rt r0 show ?thesis by simp
qed

text \<open>
  As the claim words it, the result is the floor of componentStock / quantityPerUnit and
  never above it. With stock 1 and the quantity 0.1 as stored, the result is 10 while the
  exact quotient of the stored numbers has floor 9; with stock 7 and the quantity 0.07 the
  result is 99 while 7 / 0.07 is 100; both quantities pass the product editor, whose
  minimum is 0.0001. With a negative quantity, which the function accepts although the
  editor does not store it, the result 0 is above floor(5 / -1) = -5.
\<close>

theorem computeVirtualStock_floor_counterexample:
  "computeVirtualStock (Some (final_of ''C'' tenth)) (Some [mk_product ''C'' 1 None None]) = 10
   \<and> exact_floor [mk_product ''C'' 1 None None] \<lparr>bom_productId = ''C'', bom_quantity = tenth\<rparr> = 9
   \<and> computeVirtualStock (Some (final_of ''C'' seven_hundredths)) (Some [mk_product ''C'' 7 None None]) = 99
   \<and> \<lfloor>(7::rat) / (7 / 100)\<rfloor> = 100
   \<and> computeVirtualStock (Some (final_of ''A'' (- 1))) (Some [mk_product ''A'' 5 None None]) = 0
   \<and> exact_floor [mk_product ''A'' 5 None None] \<lparr>bom_productId = ''A'', bom_quantity = - 1\<rparr> = - 5"
proof (intro conjI)
  have t: "0 < tenth" unfolding tenth_value by simp
  have s: "0 < seven_hundredths" unfolding seven_hundredths_value by simp
  show "computeVirtualStock (Some (final_of ''C'' tenth)) (Some [mk_product ''C'' 1 None None]) = 10"
    using t by (simp add: virtual_eval floor_quotient_tenth)
  show "exact_floor [mk_product ''C'' 1 None None] \<lparr>bom_productId = ''C'', bom_quantity = tenth\<rparr> = 9"
    by (simp add: virtual_eval exact_quotient_tenth)
  show "computeVirtualStock (Some (final_of ''C'' seven_hundredths)) (Some [mk_product ''C'' 7 None None]) = 99"
    using s by (simp add: virtual_eval floor_quotient_seven_hundredths)
  show "\<lfloor>(7::rat) / (7 / 100)\<rfloor> = 100" by simp
  show "computeVirtualStock (Some (final_of ''A'' (- 1))) (Some [mk_product ''A'' 5 None None]) = 0"
    by (simp add: virtual_eval)
  show "exact_floor [mk_product ''A'' 5 None None] \<lparr>bom_productId = ''A'', bom_quantity = - 1\<rparr> = - 5"
    by (simp add: virtual_eval)
qed

section \<open>Sale: cost basis of an item\<close>

text \<open>
  Claim C7. After a successful sale, the item written for a cart line of positive quantity
  carries the cost (fromStock x readyCostPrice + shortfall x assembledCostPerUnit) / quantity,
  with fromStock = min(currentStock, quantity), shortfall = quantity - fromStock and
  assembledCostPerUnit the sum over the BOM of componentCostPrice x quantityPerUnit (0 without
  a BOM); this is \<open>blended_unit_cost\<close>. The item of line \<open>k\<close> is the \<open>k\<close>-th document
  appended to transaction_items, the ids drawn for the sale being new and distinct.
\<close>

theorem sale_item_blended_cost:
  assumes ok: "onFinalizeSale uid form tid iid s = (s', None)"
    and ftid: "tid \<notin> txn_id ` set (transactions s)"
    and inj: "inj_on iid {..<length (cart form)}"
    and fiid: "\<forall>k<length (cart form). iid k \<notin> item_id ` set (transaction_items s)"
    and k: "k < length (cart form)" and q: "0 < cart_quantity (cart form ! k)"
  shows "\<exists>p. getById (products s) (cart_productId (cart form ! k)) = Some p
           \<and> item_productId (transaction_items s' ! (length (transaction_items s) + k))
               = cart_productId (cart form ! k)
           \<and> item_costPrice (transaction_items s' ! (length (transaction_items s) + k))
               = Some (blended_unit_cost (products s) p (cart_quantity (cart form ! k)))"
proof -
  from sale_success[OF ok ftid inj fiid] obtain ds ops where
    la: "list_all2 (detail_for (products s)) (cart form) ds"
    and w: "write_details (products s) tid uid iid 0 ds = Inr ops"
    and items: "transaction_items s' = transaction_items s @ map snd (item_writes ops)"
    by blast
  from la have len: "length ds = length (cart form)" by (simp add: list_all2_lengthD)
  from la k have d: "detail_for (products s) (cart form ! k) (ds ! k)" by (simp add: list_all2_nthD)
  note wi = write_details_items[OF w]
  let ?it = "snd (item_writes ops ! k)"
  let ?line = "cart form ! k"
  let ?p = "detail_snap (ds ! k)"
  from wi k len have nth: "transaction_items s' ! (length (transaction_items s) + k) = ?it"
    by (simp add: items nth_append)
  from d have di: "detail_item (ds ! k) = ?line\<lparr>availableStock := min (currentStock ?p) (cart_quantity ?line)\<rparr>"
    and g: "getById (products s) (cart_productId ?line) = Some ?p"
    by (simp_all add: detail_for_def)
  from wi k len have pid: "item_productId ?it = cart_productId (detail_item (ds ! k))"
    and cp: "item_costPrice ?it =
             Some (costPerUnit (cart_quantity (detail_item (ds ! k))) (availableStock (detail_item (ds ! k)))
                     (max 0 (cart_quantity (detail_item (ds ! k)) - availableStock (detail_item (ds ! k))))
                     (or_zero (product_costPrice ?p))
                     (assembled_cost_spec (products s) ?p))"
    by (simp_all add: Let_def)
  have "item_costPrice ?it = Some (blended_unit_cost (products s) ?p (cart_quantity ?line))"
    using cp q by (simp add: di costPerUnit_def blended_unit_cost_def Let_def max_def min_def)
  with nth g pid di show ?thesis by simp
qed

text \<open>One F from the shelf at 30 and two assembled at 2 x 4: (1 x 30 + 2 x 8) / 3.\<close>

theorem sale_item_blended_cost_witness:
  "item_costPrice (transaction_items
       (fst (onFinalizeSale ''u'' (mk_form [mk_line ''F'' 3 100]) ''t'' item_ids blend_store)) ! 0)
     = Some (46 / 3)
   \<and> item_productId (transaction_items
       (fst (onFinalizeSale ''u'' (mk_form [mk_line ''F'' 3 100]) ''t'' item_ids blend_store)) ! 0)
     = ''F''"
proof -
  let ?form = "mk_form [mk_line ''F'' 3 100]"
  let ?f = "mk_product ''F'' 1 (Some 30) (Some [\<lparr>bom_productId = ''C'', bom_quantity = 2\<rparr>])"
  have c: "cart ?form = [mk_line ''F'' 3 100]" by (simp add: mk_form_def)
  have ftid: "''t'' \<notin> txn_id ` set (transactions blend_store)"
    by (simp add: blend_store_def mk_store_def)
  have inj: "inj_on item_ids {..<length (cart ?form)}" by (rule item_ids_inj)
  have fiid: "\<forall>k<length (cart ?form). item_ids k \<notin> item_id ` set (transaction_items blend_store)"
    by (simp add: blend_store_def mk_store_def)
  have k: "0 < length (cart ?form)" by (simp add: c)
  have q: "0 < cart_quantity (cart ?form ! 0)" by (simp add: mk_form_def mk_line_def)
  have g: "getById (products blend_store) (cart_productId (cart ?form ! 0)) = Some ?f"
    by (simp add: mk_form_def mk_line_def blend_store_def mk_store_def mk_product_def getById_def)
  have b: "blended_unit_cost (products blend_store) ?f (cart_quantity (cart ?form ! 0)) = 46 / 3"
    by (simp add: mk_form_def mk_line_def blend_store_def mk_store_def mk_product_def getById_def
        blended_unit_cost_def assembled_cost_spec_def component_cost_def the_bom_def or_zero_def)
  have pid: "cart_productId (cart ?form ! 0) = ''F''" by (simp add: mk_form_def mk_line_def)
  from sale_item_blended_cost[OF blend_sale_ok ftid inj fiid k q] g b pid
  show ?thesis by (simp add: blend_store_def mk_store_def)
qed

section \<open>Sale: records written\<close>

text \<open>
  Claim C8, as the code has it. A successful sale appends exactly one transaction, of type
  IN, and exactly one item per cart line, in cart order, each pointing to that transaction;
  nothing else is added to transaction_items. The components consumed for a shortfall have
  their stock written, and their cost enters the line's blended cost, but no item is
  written for them.
\<close>

theorem sale_persists_one_transaction_and_one_item_per_line:
  assumes ok: "onFinalizeSale uid form tid iid s = (s', None)"
    and ftid: "tid \<notin> txn_id ` set (transactions s)"
    and inj: "inj_on iid {..<length (cart form)}"
    and fiid: "\<forall>k<length (cart form). iid k \<notin> item_id ` set (transaction_items s)"
  shows "transactions s' = transactions s @ [sale_transaction uid form tid]
         \<and> txn_type (sale_transaction uid form tid) = IN
         \<and> (\<exists>new. transaction_items s' = transaction_items s @ new
               \<and> map item_productId new = map cart_productId (cart form)
               \<and> map item_quantity new = map cart_quantity (cart form)
               \<and> (\<forall>it\<in>set new. transactionId it = tid))"
proof -
  from sale_success[OF ok ftid inj fiid] obtain ds ops where
    la: "list_all2 (detail_for (products s)) (cart form) ds"
    and w: "write_details (products s) tid uid iid 0 ds = Inr ops"
    and items: "transaction_items s' = transaction_items s @ map snd (item_writes ops)"
    and txns: "transactions s' = transactions s @ [sale_transaction uid form tid]"
    by blast
  from la have len: "length ds = length (cart form)" by (simp add: list_all2_lengthD)
  note wi = write_details_items[OF w]
  let ?new = "map snd (item_writes ops)"
  have det: "\<forall>j<length ds. cart_productId (detail_item (ds ! j)) = cart_productId (cart form ! j)
                \<and> cart_quantity (detail_item (ds ! j)) = cart_quantity (cart form ! j)"
    using la by (auto simp: list_all2_conv_all_nth detail_for_def)
  have "map item_productId ?new = map cart_productId (cart form)"
    using wi len det by (intro nth_equalityI) (simp_all add: Let_def)
  moreover have "map item_quantity ?new = map cart_quantity (cart form)"
    using wi len det by (intro nth_equalityI) (simp_all add: Let_def)
  moreover have "\<forall>it\<in>set ?new. transactionId it = tid"
    using wi by (auto simp: set_conv_nth Let_def)
  ultimately show ?thesis using items txns by (auto simp: sale_transaction_def)
qed

theorem sale_persists_one_transaction_and_one_item_per_line_witness:
  "transactions (fst (onFinalizeSale ''u'' (mk_form [mk_line ''F'' 3 100]) ''t'' item_ids blend_store))
     = [sale_transaction ''u'' (mk_form [mk_line ''F'' 3 100]) ''t'']
   \<and> map item_productId (transaction_items
        (fst (onFinalizeSale ''u'' (mk_form [mk_line ''F'' 3 100]) ''t'' item_ids blend_store)))
     = [''F'']"
proof -
  let ?form = "mk_form [mk_line ''F'' 3 100]"
  have c: "cart ?form = [mk_line ''F'' 3 100]" by (simp add: mk_form_def)
  have ftid: "''t'' \<notin> txn_id ` set (transactions blend_store)"
    by (simp add: blend_store_def mk_store_def)
  have inj: "inj_on item_ids {..<length (cart ?form)}" by (rule item_ids_inj)
  have fiid: "\<forall>k<length (cart ?form). item_ids k \<notin> item_id ` set (transaction_items blend_store)"
    by (simp add: blend_store_def mk_store_def)
  from sale_persists_one_transaction_and_one_item_per_line[OF blend_sale_ok ftid inj fiid]
  show ?thesis by (auto simp: mk_form_def mk_line_def blend_store_def mk_store_def)
qed

text \<open>
  Scenario B: 6 C are consumed for the 3 F sold, and the only item written is the one for F.
\<close>

theorem sale_writes_no_consumption_item:
  "snd (onFinalizeSale ''u'' (mk_form [mk_line ''F'' 3 100]) ''t'' item_ids (scenario_store 10)) = None
   \<and> map currentStock (products
        (fst (onFinalizeSale ''u'' (mk_form [mk_line ''F'' 3 100]) ''t'' item_ids (scenario_store 10))))
     = [0, 4]
   \<and> map item_productId (transaction_items
        (fst (onFinalizeSale ''u'' (mk_form [mk_line ''F'' 3 100]) ''t'' item_ids (scenario_store 10))))
     = [''F'']"
  by (simp add: eval_defs)

section \<open>Purchase\<close>

text \<open>
  Claim C6, as the code has it. A purchase runs no stock check and succeeds whenever the
  products of its found lines are in the store (a found line is one whose product is in
  the list the form has loaded). It appends exactly one transaction, of type OUT, with
  netTotal = subtotal - discount, and one item per found line, in order. The product of a
  found line gains the quantities of the found lines that name it, takes the unit cost of
  the last of them as costPrice and the purchase's supplier as supplierId; every other
  product is left as it was. The ids drawn for the purchase are new and distinct.
\<close>

theorem purchase_effect:
  assumes st: "\<forall>l\<in>set (found_lines cached (purchase_items values)).
                 line_productId l \<in> product_id ` set (products s)"
    and ftid: "tid \<notin> txn_id ` set (transactions s)"
    and inj: "inj_on iid {..<length (purchase_items values)}"
    and fiid: "\<forall>k<length (purchase_items values). iid k \<notin> item_id ` set (transaction_items s)"
  shows "\<exists>s'. onFinalizePurchase cached uid values tid iid s = (s', None)
      \<and> transactions s' = transactions s @ [purchase_transaction uid values tid]
      \<and> txn_type (purchase_transaction uid values tid) = OUT
      \<and> netTotal (purchase_transaction uid values tid)
          = purchase_subtotal (purchase_items values) - discountInput values
      \<and> (\<exists>new. transaction_items s' = transaction_items s @ new
            \<and> map item_productId new = map line_productId (found_lines cached (purchase_items values))
            \<and> map item_quantity new = map line_quantity (found_lines cached (purchase_items values))
            \<and> map item_price new = map line_price (found_lines cached (purchase_items values)))
      \<and> (\<forall>l\<in>set (found_lines cached (purchase_items values)).
            \<exists>p p'. getById (products s) (line_productId l) = Some p
              \<and> getById (products s') (line_productId l) = Some p'
              \<and> currentStock p' = currentStock p
                  + sum_list (map line_quantity
                      (filter (\<lambda>m. line_productId m = line_productId l)
                         (found_lines cached (purchase_items values))))
              \<and> product_costPrice p' = Some (line_price (last
                      (filter (\<lambda>m. line_productId m = line_productId l)
                         (found_lines cached (purchase_items values)))))
              \<and> product_supplierId p' = Some (purchase_supplierId values))
      \<and> (\<forall>j. j \<notin> line_productId ` set (found_lines cached (purchase_items values)) \<longrightarrow>
            getById (products s') j = getById (products s) j)"
  using purchase_commit[OF assms] .

text \<open>Scenario D: 5 P at 20; P goes from 10 to 15, its cost from 15 to 20, netTotal is 100.\<close>

theorem purchase_effect_witness:
  "snd (onFinalizePurchase (Some catalogue_P) ''u'' (mk_purchase [mk_pline ''P'' 5 20]) ''t'' item_ids
          (mk_store catalogue_P)) = None
   \<and> map netTotal (transactions (fst (onFinalizePurchase (Some catalogue_P) ''u''
          (mk_purchase [mk_pline ''P'' 5 20]) ''t'' item_ids (mk_store catalogue_P)))) = [100]
   \<and> map item_productId (transaction_items (fst (onFinalizePurchase (Some catalogue_P) ''u''
          (mk_purchase [mk_pline ''P'' 5 20]) ''t'' item_ids (mk_store catalogue_P)))) = [''P'']
   \<and> map_option currentStock (getById (products (fst (onFinalizePurchase (Some catalogue_P) ''u''
          (mk_purchase [mk_pline ''P'' 5 20]) ''t'' item_ids (mk_store catalogue_P)))) ''P'') = Some 15
   \<and> map_option product_costPrice (getById (products (fst (onFinalizePurchase (Some catalogue_P) ''u''
          (mk_purchase [mk_pline ''P'' 5 20]) ''t'' item_ids (mk_store catalogue_P)))) ''P'')
       = Some (Some 20)"
proof -
  let ?v = "mk_purchase [mk_pline ''P'' 5 20]"
  let ?s = "mk_store catalogue_P"
  let ?c = "Some catalogue_P"
  have f: "found_lines ?c (purchase_items ?v) = [mk_pline ''P'' 5 20]"
    by (simp add: found_lines_def in_cache_def mk_purchase_def mk_pline_def catalogue_P_def
        mk_product_def getById_def)
  have pi: "purchase_items ?v = [mk_pline ''P'' 5 20]" by (simp add: mk_purchase_def)
  have st: "\<forall>l\<in>set (found_lines ?c (purchase_items ?v)). line_productId l \<in> product_id ` set (products ?s)"
    unfolding f by (simp add: mk_pline_def mk_store_def catalogue_P_def mk_product_def)
  have ftid: "''t'' \<notin> txn_id ` set (transactions ?s)" by (simp add: mk_store_def)
  have inj: "inj_on item_ids {..<length (purchase_items ?v)}" by (rule item_ids_inj)
  have fiid: "\<forall>k<length (purchase_items ?v). item_ids k \<notin> item_id ` set (transaction_items ?s)"
    by (simp add: mk_store_def)
  have g: "getById (products ?s) ''P'' = Some (mk_product ''P'' 10 (Some 15) None)"
    by (simp add: mk_store_def catalogue_P_def getById_def mk_product_def)
  from purchase_effect[OF st ftid inj fiid, of "''u''"] obtain s' new where
    r: "onFinalizePurchase ?c ''u'' ?v ''t'' item_ids ?s = (s', None)"
    and t: "transactions s' = transactions ?s @ [purchase_transaction ''u'' ?v ''t'']"
    and n: "netTotal (purchase_transaction ''u'' ?v ''t'') = purchase_subtotal (purchase_items ?v) - discountInput ?v"
    and items: "transaction_items s' = transaction_items ?s @ new"
    and pids: "map item_productId new = map line_productId (found_lines ?c (purchase_items ?v))"
    and prods: "\<forall>l\<in>set (found_lines ?c (purchase_items ?v)).
            \<exists>p p'. getById (products ?s) (line_productId l) = Some p
              \<and> getById (products s') (line_productId l) = Some p'
              \<and> currentStock p' = currentStock p
                  + sum_list (map line_quantity
                      (filter (\<lambda>m. line_productId m = line_productId l)
                         (found_lines ?c (purchase_items ?v))))
              \<and> product_costPrice p' = Some (line_price (last
                      (filter (\<lambda>m. line_productId m = line_productId l)
                         (found_lines ?c (purchase_items ?v)))))
              \<and> product_supplierId p' = Some (purchase_supplierId ?v)"
    by blast
  from prods obtain p p' where
    p: "getById (products ?s) ''P'' = Some p" "getById (products s') ''P'' = Some p'"
      "currentStock p' = currentStock p + 5" "product_costPrice p' = Some 20"
    unfolding f by (auto simp: mk_pline_def)
  from p(1) g have "p = mk_product ''P'' 10 (Some 15) None" by simp
  then have "currentStock p = 10" by (simp add: mk_product_def)
  with p have "map_option currentStock (getById (products s') ''P'') = Some 15"
    "map_option product_costPrice (getById (products s') ''P'') = Some (Some 20)" by simp_all
  moreover have "map netTotal (transactions s') = [100]"
    using t n by (simp add: mk_store_def pi purchase_subtotal_def mk_pline_def mk_purchase_def)
  moreover have "map item_productId (transaction_items s') = [''P'']"
    using items pids unfolding f by (simp add: mk_store_def mk_pline_def)
  ultimately show ?thesis using r by simp
qed

text \<open>
  As the claim words it, every line gets an item. A line whose product is not in the
  loaded list is skipped: of the two lines P and X only P gets one.
\<close>

theorem purchase_skips_unknown_line:
  "snd (onFinalizePurchase (Some catalogue_P) ''u''
          (mk_purchase [mk_pline ''P'' 5 20, mk_pline ''X'' 1 7]) ''t'' item_ids (mk_store catalogue_P)) = None
   \<and> length (purchase_items (mk_purchase [mk_pline ''P'' 5 20, mk_pline ''X'' 1 7])) = 2
   \<and> map item_productId (transaction_items (fst (onFinalizePurchase (Some catalogue_P) ''u''
          (mk_purchase [mk_pline ''P'' 5 20, mk_pline ''X'' 1 7]) ''t'' item_ids (mk_store catalogue_P))))
       = [''P'']"
  by (simp add: purchase_eval_defs)

section \<open>Missing products\<close>

text \<open>
  Claim C9, as the code has it. A sale with a line whose product, or one of whose BOM
  components, is not in the store fails and leaves the store as it was; so does an
  assembly whose final product or component is missing. A purchase does not fail on a
  line \<open>l\<close> whose product is not in the loaded list: it succeeds, appends its transaction,
  leaves that product id untouched and writes no item for it.
\<close>

theorem missing_product_outcomes:
  "((\<exists>l\<in>set (cart form). sale_line_missing (products s) l) \<longrightarrow>
      (\<exists>e. onFinalizeSale uid form tid iid s = (s, Some e)))
   \<and> (assembly_missing (products s) fid \<longrightarrow>
      (\<exists>e. processAssemblyToStock uid fid qty tid iid now s = (s, Some e)))
   \<and> ((\<forall>l\<in>set (found_lines cached (purchase_items vals)).
          line_productId l \<in> product_id ` set (products s))
        \<and> tid \<notin> txn_id ` set (transactions s)
        \<and> inj_on iid {..<length (purchase_items vals)}
        \<and> (\<forall>k<length (purchase_items vals). iid k \<notin> item_id ` set (transaction_items s))
        \<and> l \<in> set (purchase_items vals) \<and> \<not> in_cache cached l \<longrightarrow>
      (\<exists>s'. onFinalizePurchase cached uid vals tid iid s = (s', None)
         \<and> transactions s' = transactions s @ [purchase_transaction uid vals tid]
         \<and> getById (products s') (line_productId l) = getById (products s) (line_productId l)
         \<and> (\<forall>it\<in>set (transaction_items s').
               it \<in> set (transaction_items s) \<or> item_productId it \<noteq> line_productId l)))"
proof (intro conjI impI)
  assume "\<exists>l\<in>set (cart form). sale_line_missing (products s) l"
  then show "\<exists>e. onFinalizeSale uid form tid iid s = (s, Some e)" by (rule sale_missing_fails)
next
  assume "assembly_missing (products s) fid"
  then show "\<exists>e. processAssemblyToStock uid fid qty tid iid now s = (s, Some e)"
    by (rule assembly_missing_fails)
next
  let ?found = "found_lines cached (purchase_items vals)"
  assume a: "(\<forall>l\<in>set ?found. line_productId l \<in> product_id ` set (products s))
        \<and> tid \<notin> txn_id ` set (transactions s)
        \<and> inj_on iid {..<length (purchase_items vals)}
        \<and> (\<forall>k<length (purchase_items vals). iid k \<notin> item_id ` set (transaction_items s))
        \<and> l \<in> set (purchase_items vals) \<and> \<not> in_cache cached l"
  then have st: "\<forall>l\<in>set ?found. line_productId l \<in> product_id ` set (products s)"
    and ftid: "tid \<notin> txn_id ` set (transactions s)"
    and inj: "inj_on iid {..<length (purchase_items vals)}"
    and fiid: "\<forall>k<length (purchase_items vals). iid k \<notin> item_id ` set (transaction_items s)"
    and nc: "\<not> in_cache cached l"
    by simp_all
  have notfound: "line_productId l \<notin> line_productId ` set ?found"
  proof
    assume "line_productId l \<in> line_productId ` set ?found"
    then obtain m where m: "m \<in> set ?found" and eq: "line_productId m = line_productId l" by auto
    from m have "in_cache cached m" by (simp add: found_lines_def)
    then have "in_cache cached l" unfolding in_cache_def eq .
    with nc show False by simp
  qed
  from purchase_commit[OF st ftid inj fiid, of uid] obtain s' new where
    r: "onFinalizePurchase cached uid vals tid iid s = (s', None)"
    and t: "transactions s' = transactions s @ [purchase_transaction uid vals tid]"
    and items: "transaction_items s' = transaction_items s @ new"
    and pids: "map item_productId new = map line_productId ?found"
    and others: "\<forall>j. j \<notin> line_productId ` set ?found \<longrightarrow> getById (products s') j = getById (products s) j"
    by blast
  from others notfound have g: "getById (products s') (line_productId l) = getById (products s) (line_productId l)"
    by simp
  have "\<forall>it\<in>set (transaction_items s'). it \<in> set (transaction_items s) \<or> item_productId it \<noteq> line_productId l"
  proof
    fix it assume "it \<in> set (transaction_items s')"
    with items have "it \<in> set (transaction_items s) \<or> it \<in> set new" by auto
    moreover have "item_productId it \<noteq> line_productId l" if "it \<in> set new"
    proof -
      from that have "item_productId it \<in> set (map item_productId new)" by simp
      with pids have "item_productId it \<in> line_productId ` set ?found" by simp
      with notfound show ?thesis by auto
    qed
    ultimately show "it \<in> set (transaction_items s) \<or> item_productId it \<noteq> line_productId l" by blast
  qed
  with r t g show "\<exists>s'. onFinalizePurchase cached uid vals tid iid s = (s', None)
         \<and> transactions s' = transactions s @ [purchase_transaction uid vals tid]
         \<and> getById (products s') (line_productId l) = getById (products s) (line_productId l)
         \<and> (\<forall>it\<in>set (transaction_items s').
               it \<in> set (transaction_items s) \<or> item_productId it \<noteq> line_productId l)"
    by blast
qed

theorem missing_product_outcomes_witness:
  "fst (onFinalizeSale ''u'' (mk_form [mk_line ''X'' 1 10]) ''t'' item_ids (mk_store catalogue_P))
     = mk_store catalogue_P
   \<and> snd (onFinalizeSale ''u'' (mk_form [mk_line ''X'' 1 10]) ''t'' item_ids (mk_store catalogue_P)) \<noteq> None
   \<and> fst (processAssemblyToStock ''u'' ''X'' 1 ''t'' item_ids 0 (mk_store catalogue_P))
     = mk_store catalogue_P
   \<and> snd (processAssemblyToStock ''u'' ''X'' 1 ''t'' item_ids 0 (mk_store catalogue_P)) \<noteq> None
   \<and> snd (onFinalizePurchase (Some catalogue_P) ''u'' (mk_purchase [mk_pline ''X'' 1 7]) ''t''
            item_ids (mk_store catalogue_P)) = None
   \<and> transactions (fst (onFinalizePurchase (Some catalogue_P) ''u'' (mk_purchase [mk_pline ''X'' 1 7])
            ''t'' item_ids (mk_store catalogue_P)))
     = [purchase_transaction ''u'' (mk_purchase [mk_pline ''X'' 1 7]) ''t'']"
proof -
  let ?s = "mk_store catalogue_P"
  let ?form = "mk_form [mk_line ''X'' 1 10]"
  let ?v = "mk_purchase [mk_pline ''X'' 1 7]"
  let ?c = "Some catalogue_P"
  let ?l = "mk_pline ''X'' 1 7"
  have h1: "\<exists>l\<in>set (cart ?form). sale_line_missing (products ?s) l"
    by (simp add: mk_form_def mk_line_def mk_store_def catalogue_P_def mk_product_def
        sale_line_missing_def getById_def)
  have h2: "assembly_missing (products ?s) ''X''"
    by (simp add: mk_store_def catalogue_P_def mk_product_def assembly_missing_def getById_def)
  have f: "found_lines ?c (purchase_items ?v) = []"
    by (simp add: found_lines_def in_cache_def mk_purchase_def mk_pline_def catalogue_P_def
        mk_product_def getById_def)
  have h3: "(\<forall>l\<in>set (found_lines ?c (purchase_items ?v)).
          line_productId l \<in> product_id ` set (products ?s))
        \<and> ''t'' \<notin> txn_id ` set (transactions ?s)
        \<and> inj_on item_ids {..<length (purchase_items ?v)}
        \<and> (\<forall>k<length (purchase_items ?v). item_ids k \<notin> item_id ` set (transaction_items ?s))
        \<and> ?l \<in> set (purchase_items ?v) \<and> \<not> in_cache ?c ?l"
    unfolding f using item_ids_inj
    by (simp add: mk_store_def mk_purchase_def in_cache_def mk_pline_def catalogue_P_def
        mk_product_def getById_def)
  note m = missing_product_outcomes[where form = ?form and s = ?s and uid = "''u''" and tid = "''t''"
      and iid = item_ids and fid = "''X''" and qty = "1" and now = "0" and cached = ?c and vals = ?v
      and l = ?l]
  from m h1 obtain e1 where "onFinalizeSale ''u'' ?form ''t'' item_ids ?s = (?s, Some e1)" by blast
  moreover from m h2 obtain e2 where "processAssemblyToStock ''u'' ''X'' 1 ''t'' item_ids 0 ?s = (?s, Some e2)"
    by blast
  moreover from m h3 obtain s' where "onFinalizePurchase ?c ''u'' ?v ''t'' item_ids ?s = (s', None)"
    "transactions s' = transactions ?s @ [purchase_transaction ''u'' ?v ''t'']" by blast
  ultimately show ?thesis by (simp add: mk_store_def)
qed

text \<open>
  As the claim words it, a purchase of a product that does not exist fails before any
  write. It succeeds and the transaction is written.
\<close>

theorem purchase_of_unknown_product_commits:
  "onFinalizePurchase (Some catalogue_P) ''u'' (mk_purchase [mk_pline ''X'' 1 7]) ''t'' item_ids
     (mk_store catalogue_P)
   = (\<lparr>products = catalogue_P,
       transactions = [purchase_transaction ''u'' (mk_purchase [mk_pline ''X'' 1 7]) ''t''],
       transaction_items = []\<rparr>, None)"
  by (simp add: purchase_eval_defs)

end
